theory Spec2Isabelle
  imports Main "HOL-Library.Word"
begin

section \<open>Strings\<close>

text \<open>
  A JavaScript string is a sequence of UTF-16 code units. The literals of the source
  that are not ASCII are written by their code units.
\<close>

type_synonym jstring = "16 word list"

definition ascii :: "string \<Rightarrow> jstring" where
  "ascii s = map (\<lambda>c. of_nat (of_char c)) s"

text \<open>The class \<open>\s\<close> of a JavaScript regular expression (WhiteSpace and LineTerminator).\<close>

definition isJsSpace :: "16 word \<Rightarrow> bool" where
  "isJsSpace c \<longleftrightarrow>
     (9 \<le> c \<and> c \<le> 13) \<or> c = 32 \<or> c = 0xA0 \<or> c = 0x1680 \<or>
     (0x2000 \<le> c \<and> c \<le> 0x200A) \<or> c = 0x2028 \<or> c = 0x2029 \<or> c = 0x202F \<or>
     c = 0x205F \<or> c = 0x3000 \<or> c = 0xFEFF"

text \<open>\<open>s.replace(/\s/g, '')\<close>: the normalization of payload keys and field labels.\<close>

definition stripSpace :: "jstring \<Rightarrow> jstring" where
  "stripSpace s = filter (\<lambda>c. \<not> isJsSpace c) s"

text \<open>
  Two strings differ only in whitespace when one becomes the other by inserting and
  deleting whitespace characters, at the ends or inside.
\<close>

inductive sameUpToSpace :: "jstring \<Rightarrow> jstring \<Rightarrow> bool" where
  sus_Nil: "sameUpToSpace [] []"
| sus_Keep: "sameUpToSpace s t \<Longrightarrow> sameUpToSpace (c # s) (c # t)"
| sus_Left: "isJsSpace c \<Longrightarrow> sameUpToSpace s t \<Longrightarrow> sameUpToSpace (c # s) t"
| sus_Right: "isJsSpace c \<Longrightarrow> sameUpToSpace s t \<Longrightarrow> sameUpToSpace s (c # t)"

section \<open>The structured model of the form (jotform-parser.ts)\<close>

text \<open>
  \<open>interface FormField\<close>. A field that may be \<open>null\<close> or left out is an option.
  \<open>options\<close> holds the choice labels (a radio item without a label gives
  \<open>undefined\<close>), \<open>subfields\<close> the pairs of \<open>name\<close> and \<open>label\<close>.
\<close>

record FormField =
  qid :: "jstring option"
  id_f :: "jstring option"
  name_f :: "jstring option"
  type_f :: "jstring option"
  text_f :: "jstring option"
  subLabel :: "jstring option"
  options :: "jstring option list option"
  subfields :: "(jstring option \<times> jstring option) list option"
  defaultValue :: "jstring option"
  validation :: "jstring option"
  hidden :: bool
  order_f :: nat

record FieldGroup =
  collapseField :: FormField
  childFields :: "FormField list"

definition isCollapse :: "FormField \<Rightarrow> bool" where
  "isCollapse field \<longleftrightarrow> type_f field = Some (ascii ''control_collapse'')"

text \<open>
  \<open>groupFields\<close>: the body of the \<open>forEach\<close> is \<open>groupStep\<close>, on the pair of the
  local variables \<open>fieldGroups\<close> and \<open>currentGroup\<close>.
\<close>

fun groupStep ::
  "FieldGroup list \<times> FieldGroup option \<Rightarrow> FormField \<Rightarrow> FieldGroup list \<times> FieldGroup option"
where
  "groupStep (fieldGroups, currentGroup) field =
     (if isCollapse field then
        ((case currentGroup of None \<Rightarrow> fieldGroups | Some g \<Rightarrow> fieldGroups @ [g]),
         Some \<lparr>collapseField = field, childFields = []\<rparr>)
      else
        (case currentGroup of
           Some g \<Rightarrow> (fieldGroups, Some (g\<lparr>childFields := childFields g @ [field]\<rparr>))
         | None \<Rightarrow> (fieldGroups, None)))"

definition groupFields :: "FormField list \<Rightarrow> FieldGroup list" where
  "groupFields fieldList =
     (case foldl groupStep ([], None) fieldList of
        (fieldGroups, currentGroup) \<Rightarrow>
          (case currentGroup of None \<Rightarrow> fieldGroups | Some g \<Rightarrow> fieldGroups @ [g]))"

text \<open>A group written out flat: its header, then its members.\<close>

definition flatGroup :: "FieldGroup \<Rightarrow> FormField list" where
  "flatGroup g = collapseField g # childFields g"

text \<open>The groups that a state of the loop stands for: the closed ones, then the open one.\<close>

fun closeGroups :: "FieldGroup list \<times> FieldGroup option \<Rightarrow> FieldGroup list" where
  "closeGroups (fieldGroups, None) = fieldGroups"
| "closeGroups (fieldGroups, Some g) = fieldGroups @ [g]"

text \<open>A descriptor with the given element id, type, label and order, for examples.\<close>

definition mkField :: "string \<Rightarrow> string \<Rightarrow> jstring option \<Rightarrow> nat \<Rightarrow> FormField" where
  "mkField i ty tx n =
     \<lparr>qid = None, id_f = Some (ascii i), name_f = None, type_f = Some (ascii ty),
      text_f = tx, subLabel = None, options = None, subfields = None,
      defaultValue = None, validation = None, hidden = False, order_f = n\<rparr>"

section \<open>The document\<close>

text \<open>
  The live document that both source files read and \<open>form-modifier.ts\<close> mutates. An
  element carries a key, which stands for its identity as an object: a reference held
  by the code is the key, and every read goes through the current document. The
  properties are the ones the source reads or writes: the local name (lower case in an
  HTML document), the attributes, the \<open>value\<close> and \<open>checked\<close> properties of a form
  control, the computed \<open>display\<close> and the \<open>display\<close> of the inline style. A write to a
  property stores the string that is assigned.
\<close>

record elem =
  key :: nat
  localName :: jstring
  attrs :: "(jstring \<times> jstring) list"
  value_p :: jstring
  checked_p :: bool
  computedDisplay :: jstring
  styleDisplay :: jstring

datatype node = Text jstring | Element elem "node list"

type_synonym document = "node list"

text \<open>An element as a traversal meets it: its ancestors, nearest first, itself, its children.\<close>

type_synonym entry = "elem list \<times> elem \<times> node list"

fun walk :: "elem list \<Rightarrow> node \<Rightarrow> entry list" where
  "walk anc (Text s) = []"
| "walk anc (Element e ks) = (anc, e, ks) # concat (map (walk (e # anc)) ks)"

definition walkDoc :: "document \<Rightarrow> entry list" where
  "walkDoc doc = concat (map (walk []) doc)"

definition entryKey :: "entry \<Rightarrow> nat" where
  "entryKey x = key (fst (snd x))"

definition ancestorKeys :: "entry \<Rightarrow> nat list" where
  "ancestorKeys x = map key (fst x)"

definition getAttribute :: "elem \<Rightarrow> string \<Rightarrow> jstring option" where
  "getAttribute e a = map_of (attrs e) (ascii a)"

text \<open>The tokens of a string between separators; \<open>classList\<close> splits at ASCII whitespace.\<close>

fun tokens :: "(16 word \<Rightarrow> bool) \<Rightarrow> jstring \<Rightarrow> jstring \<Rightarrow> jstring list" where
  "tokens sep acc [] = (if acc = [] then [] else [rev acc])"
| "tokens sep acc (c # cs) =
     (if sep c then (if acc = [] then tokens sep [] cs else rev acc # tokens sep [] cs)
      else tokens sep (c # acc) cs)"

definition isAsciiSpace :: "16 word \<Rightarrow> bool" where
  "isAsciiSpace c \<longleftrightarrow> c = 9 \<or> c = 10 \<or> c = 12 \<or> c = 13 \<or> c = 32"

definition classList :: "elem \<Rightarrow> jstring list" where
  "classList e = (case getAttribute e ''class'' of None \<Rightarrow> [] | Some s \<Rightarrow> tokens isAsciiSpace [] s)"

definition asciiLower :: "jstring \<Rightarrow> jstring" where
  "asciiLower s = map (\<lambda>c. if 65 \<le> c \<and> c \<le> 90 then c + 32 else c) s"

subsection \<open>Selectors\<close>

text \<open>
  The selectors that the source writes, as syntax trees: a compound selector is a list
  of simple selectors, a complex selector has at most one combinator, and a selector
  list matches where one of its members does.
\<close>

datatype simple =
    Type string
  | Class string
  | Id jstring
  | HasAttr string
  | AttrEq string jstring
  | AttrEqCI string jstring
  | AttrPrefix string jstring
  | AttrSuffix string jstring

fun isSuffix :: "'a list \<Rightarrow> 'a list \<Rightarrow> bool" where
  "isSuffix v s = (length v \<le> length s \<and> drop (length s - length v) s = v)"

fun isPrefix :: "'a list \<Rightarrow> 'a list \<Rightarrow> bool" where
  "isPrefix v s = (take (length v) s = v)"

fun matchSimple :: "simple \<Rightarrow> elem \<Rightarrow> bool" where
  "matchSimple (Type t) e = (localName e = ascii t)"
| "matchSimple (Class c) e = (ascii c \<in> set (classList e))"
| "matchSimple (Id i) e = (getAttribute e ''id'' = Some i)"
| "matchSimple (HasAttr a) e = (getAttribute e a \<noteq> None)"
| "matchSimple (AttrEq a v) e = (getAttribute e a = Some v)"
| "matchSimple (AttrEqCI a v) e =
     (case getAttribute e a of None \<Rightarrow> False | Some x \<Rightarrow> asciiLower x = asciiLower v)"
| "matchSimple (AttrPrefix a v) e =
     (case getAttribute e a of None \<Rightarrow> False | Some x \<Rightarrow> v \<noteq> [] \<and> isPrefix v x)"
| "matchSimple (AttrSuffix a v) e =
     (case getAttribute e a of None \<Rightarrow> False | Some x \<Rightarrow> v \<noteq> [] \<and> isSuffix v x)"

definition matchCompound :: "simple list \<Rightarrow> elem \<Rightarrow> bool" where
  "matchCompound c e = list_all (\<lambda>s. matchSimple s e) c"

datatype selector =
    Compound "simple list"
  | Descendant "simple list" "simple list"
  | Child "simple list" "simple list"

fun matchSelector :: "selector \<Rightarrow> elem list \<Rightarrow> elem \<Rightarrow> bool" where
  "matchSelector (Compound c) anc e = matchCompound c e"
| "matchSelector (Descendant a c) anc e = (matchCompound c e \<and> list_ex (matchCompound a) anc)"
| "matchSelector (Child a c) anc e =
     (matchCompound c e \<and> (case anc of [] \<Rightarrow> False | p # _ \<Rightarrow> matchCompound a p))"

text \<open>
  \<open>querySelectorAll\<close> on the document (no scope) or on an element (the scope is its
  key): the matching elements in document order; under an element, its descendants only,
  the selector still seeing the ancestors outside.
\<close>

definition inScope :: "nat option \<Rightarrow> entry \<Rightarrow> bool" where
  "inScope scope x = (case scope of None \<Rightarrow> True | Some k \<Rightarrow> k \<in> set (ancestorKeys x))"

definition selects :: "nat option \<Rightarrow> selector list \<Rightarrow> entry \<Rightarrow> bool" where
  "selects scope sels x \<longleftrightarrow>
     inScope scope x \<and> list_ex (\<lambda>s. matchSelector s (fst x) (fst (snd x))) sels"

definition selectAll :: "document \<Rightarrow> nat option \<Rightarrow> selector list \<Rightarrow> entry list" where
  "selectAll doc scope sels = filter (selects scope sels) (walkDoc doc)"

definition querySelectorAll :: "document \<Rightarrow> nat option \<Rightarrow> selector list \<Rightarrow> nat list" where
  "querySelectorAll doc scope sels = map entryKey (selectAll doc scope sels)"

definition selectFirst :: "document \<Rightarrow> nat option \<Rightarrow> selector list \<Rightarrow> entry option" where
  "selectFirst doc scope sels = find (selects scope sels) (walkDoc doc)"

definition querySelector :: "document \<Rightarrow> nat option \<Rightarrow> selector list \<Rightarrow> nat option" where
  "querySelector doc scope sels = map_option entryKey (selectFirst doc scope sels)"

definition getElementById :: "document \<Rightarrow> jstring \<Rightarrow> nat option" where
  "getElementById doc i =
     map_option entryKey (find (\<lambda>x. getAttribute (fst (snd x)) ''id'' = Some i) (walkDoc doc))"

subsection \<open>Mutation\<close>

text \<open>\<open>el.remove()\<close>: the element leaves the tree with everything below it.\<close>

fun prune :: "nat \<Rightarrow> node \<Rightarrow> node list" where
  "prune k (Text s) = [Text s]"
| "prune k (Element e ks) = (if key e = k then [] else [Element e (concat (map (prune k) ks))])"

definition removeNode :: "nat \<Rightarrow> document \<Rightarrow> document" where
  "removeNode k doc = concat (map (prune k) doc)"

text \<open>A write to a property of the element with key \<open>k\<close>.\<close>

fun setProp :: "nat \<Rightarrow> (elem \<Rightarrow> elem) \<Rightarrow> node \<Rightarrow> node" where
  "setProp k f (Text s) = Text s"
| "setProp k f (Element e ks) = Element (if key e = k then f e else e) (map (setProp k f) ks)"

definition setValue :: "nat \<Rightarrow> jstring \<Rightarrow> document \<Rightarrow> document" where
  "setValue k v doc = map (setProp k (\<lambda>e. e\<lparr>value_p := v\<rparr>)) doc"

definition setChecked :: "nat \<Rightarrow> document \<Rightarrow> document" where
  "setChecked k doc = map (setProp k (\<lambda>e. e\<lparr>checked_p := True\<rparr>)) doc"

text \<open>\<open>el.textContent = s\<close>: the children are replaced by one text node, by none for \<open>''\<close>.\<close>

fun setText :: "nat \<Rightarrow> jstring \<Rightarrow> node \<Rightarrow> node" where
  "setText k s (Text t) = Text t"
| "setText k s (Element e ks) =
     (if key e = k then Element e (if s = [] then [] else [Text s])
      else Element e (map (setText k s) ks))"

definition setTextContent :: "nat \<Rightarrow> jstring \<Rightarrow> document \<Rightarrow> document" where
  "setTextContent k s doc = map (setText k s) doc"

section \<open>Applying the payload (form-modifier.ts)\<close>

text \<open>
  \<open>interface QueryGroupData\<close> and \<open>interface PrefillData\<close>. An object with string
  keys is the list of its properties in the order in which \<open>for ... in\<close> meets them.
\<close>

record QueryGroupData =
  headerText :: jstring
  fields_q :: "(jstring \<times> jstring) list"

record PrefillData =
  topLevel :: "(jstring \<times> jstring) list option"
  groups :: "QueryGroupData list"

datatype exn = SyntaxError | InvalidCharacterError | InvalidStateError

text \<open>
  A run of code that mutates the document ends normally or by an exception; the
  mutations made before the exception stay.
\<close>

datatype outcome = Done document | Raised exn document

fun finalDoc :: "outcome \<Rightarrow> document" where
  "finalDoc (Done d) = d"
| "finalDoc (Raised e d) = d"

fun isDone :: "outcome \<Rightarrow> bool" where
  "isDone (Done d) = True"
| "isDone (Raised e d) = False"

text \<open>
  Two selectors are built from data at run time. The browser parses the text: where the
  text lies in the fragment written out here, the result is fixed; on every other text
  the browser's answer (the matching elements, or an exception) is a parameter.
\<close>

record browser =
  queryOther :: "jstring \<Rightarrow> document \<Rightarrow> exn + nat list"

definition isAsciiLetter :: "16 word \<Rightarrow> bool" where
  "isAsciiLetter c \<longleftrightarrow> (65 \<le> c \<and> c \<le> 90) \<or> (97 \<le> c \<and> c \<le> 122)"

definition isAsciiDigit :: "16 word \<Rightarrow> bool" where
  "isAsciiDigit c \<longleftrightarrow> 48 \<le> c \<and> c \<le> 57"

definition isNameChar :: "16 word \<Rightarrow> bool" where
  "isNameChar c \<longleftrightarrow> isAsciiLetter c \<or> isAsciiDigit c \<or> c = 95 \<or> c = 45"

text \<open>An identifier of CSS in ASCII: a letter or \<open>_\<close>, then letters, digits, \<open>_\<close> and \<open>-\<close>.\<close>

fun isAsciiIdent :: "jstring \<Rightarrow> bool" where
  "isAsciiIdent [] = False"
| "isAsciiIdent (c # cs) = ((isAsciiLetter c \<or> c = 95) \<and> list_all isNameChar cs)"

fun startsWithDigit :: "jstring \<Rightarrow> bool" where
  "startsWithDigit [] = False"
| "startsWithDigit (c # cs) = isAsciiDigit c"

text \<open>
  Inside a double-quoted string of CSS: a newline (LF, CR, FF) ends the string as a bad
  string; the quote, the backslash, NUL and the surrogates are left to the browser.
\<close>

definition isNewline :: "16 word \<Rightarrow> bool" where
  "isNewline c \<longleftrightarrow> c = 10 \<or> c = 12 \<or> c = 13"

definition isPlainChar :: "16 word \<Rightarrow> bool" where
  "isPlainChar c \<longleftrightarrow>
     c \<noteq> 34 \<and> c \<noteq> 92 \<and> \<not> isNewline c \<and> c \<noteq> 0 \<and> \<not> (0xD800 \<le> c \<and> c \<le> 0xDFFF)"

definition firstKey :: "nat list \<Rightarrow> nat option" where
  "firstKey ks = (case ks of [] \<Rightarrow> None | k # _ \<Rightarrow> Some k)"

text \<open>\<open>document.querySelector(`#${id} .form-collapse-mid`)\<close>\<close>

definition queryHeader :: "browser \<Rightarrow> jstring \<Rightarrow> document \<Rightarrow> exn + nat option" where
  "queryHeader b hid doc =
     (if isAsciiIdent hid then
        Inr (querySelector doc None [Descendant [Id hid] [Class ''form-collapse-mid'']])
      else if startsWithDigit hid then Inl SyntaxError
      else (case queryOther b (ascii ''#'' @ hid @ ascii '' .form-collapse-mid'') doc of
              Inl e \<Rightarrow> Inl e
            | Inr ks \<Rightarrow> Inr (firstKey ks)))"

text \<open>\<open>document.querySelectorAll(`input[name="${name}"][value="${value}"]`)\<close>\<close>

definition queryRadio :: "browser \<Rightarrow> jstring \<Rightarrow> jstring \<Rightarrow> document \<Rightarrow> exn + nat list" where
  "queryRadio b nm v doc =
     (case find (\<lambda>c. \<not> isPlainChar c) (nm @ v) of
        None \<Rightarrow>
          Inr (querySelectorAll doc None
                 [Compound [Type ''input'', AttrEq ''name'' nm, AttrEq ''value'' v]])
      | Some c \<Rightarrow>
          if isNewline c then Inl SyntaxError
          else queryOther b (ascii ''input[name=\"'' @ nm @ ascii ''\"][value=\"'' @ v @ ascii ''\"]'') doc)"

definition requestContent :: jstring where
  "requestContent = [0x30EA, 0x30AF, 0x30A8, 0x30B9, 0x30C8, 0x5185, 0x5BB9]"

definition hourKey :: jstring where
  "hourKey = [0x6642]"

definition minuteKey :: jstring where
  "minuteKey = [0x5206]"

subsection \<open>Branch selection\<close>

text \<open>
  The first part of the callback of \<open>formGroups.forEach\<close>: the search for the
  request-content field and the removal of two of its choice items. \<open>None\<close> is the
  \<open>return\<close> that skips the group.
\<close>

definition reduceBranch :: "FieldGroup \<Rightarrow> QueryGroupData option \<Rightarrow> document \<Rightarrow> document option" where
  "reduceBranch targetGroup groupData doc =
     (case find (\<lambda>f. text_f f = Some requestContent) (childFields targetGroup) of
        None \<Rightarrow> None
      | Some requestField \<Rightarrow>
         (case id_f requestField of
            None \<Rightarrow> None
          | Some i \<Rightarrow>
             if i = [] then None
             else Some
               (case getElementById doc i of
                  None \<Rightarrow> doc
                | Some requestFieldElement \<Rightarrow>
                   (let radioItems =
                          querySelectorAll doc (Some requestFieldElement) [Compound [Class ''form-radio-item'']]
                    in if 4 \<le> length radioItems then
                         (case groupData of
                            Some gd \<Rightarrow> removeNode (radioItems ! 2) (removeNode (radioItems ! 3) doc)
                          | None \<Rightarrow> removeNode (radioItems ! 0) (removeNode (radioItems ! 1) doc))
                       else doc))))"

subsection \<open>Header override\<close>

definition overrideHeader :: "browser \<Rightarrow> FieldGroup \<Rightarrow> QueryGroupData \<Rightarrow> document \<Rightarrow> outcome" where
  "overrideHeader b targetGroup groupData doc =
     (case id_f (collapseField targetGroup) of
        None \<Rightarrow> Done doc
      | Some hid \<Rightarrow>
         if hid = [] then Done doc
         else (case queryHeader b hid doc of
                 Inl e \<Rightarrow> Raised e doc
               | Inr headerElement \<Rightarrow>
                  (case headerElement of
                     None \<Rightarrow> Done doc
                   | Some h \<Rightarrow>
                      if headerText groupData \<noteq> [] then Done (setTextContent h (headerText groupData) doc)
                      else Done doc)))"

subsection \<open>Field values\<close>

text \<open>\<open>value.split('-')\<close>\<close>

fun split :: "16 word \<Rightarrow> jstring \<Rightarrow> jstring list" where
  "split sep [] = [[]]"
| "split sep (c # cs) =
     (if c = sep then [] # split sep cs
      else (case split sep cs of [] \<Rightarrow> [[c]] | p # ps \<Rightarrow> (c # p) # ps))"

text \<open>The zero-padding of a one-character hour or minute.\<close>

definition padTime :: "jstring \<Rightarrow> jstring \<Rightarrow> jstring" where
  "padTime normalizedKey v =
     (if (normalizedKey = hourKey \<or> normalizedKey = minuteKey) \<and> length v = 1 then ascii ''0'' @ v
      else v)"

definition findTargetField :: "FieldGroup \<Rightarrow> jstring \<Rightarrow> FormField option" where
  "findTargetField targetGroup k =
     (if k = ascii ''timeOption'' then find (\<lambda>f. text_f f = None) (childFields targetGroup)
      else find (\<lambda>f. map_option stripSpace (text_f f) = Some (stripSpace k)) (childFields targetGroup))"

definition setValueOf :: "nat option \<Rightarrow> jstring \<Rightarrow> document \<Rightarrow> document" where
  "setValueOf el v doc = (case el of None \<Rightarrow> doc | Some k \<Rightarrow> setValue k v doc)"

text \<open>
  The branch for \<open>control_datetime\<close>. The inputs that it writes are those of a date
  field of the form, text inputs, whose \<open>value\<close> takes any string.
\<close>

definition applyDateValue :: "nat \<Rightarrow> jstring \<Rightarrow> document \<Rightarrow> document" where
  "applyDateValue fieldElement v doc =
     (let visibleDateInput =
            querySelector doc (Some fieldElement) [Compound [Type ''input'', AttrPrefix ''id'' (ascii ''lite_mode_'')]];
          doc1 = setValueOf visibleDateInput v doc;
          dateParts = split 45 v
      in if length dateParts = 3 then
           (let yearInput =
                  querySelector doc1 (Some fieldElement) [Compound [Type ''input'', AttrSuffix ''name'' (ascii ''[year]'')]];
                monthInput =
                  querySelector doc1 (Some fieldElement) [Compound [Type ''input'', AttrSuffix ''name'' (ascii ''[month]'')]];
                dayInput =
                  querySelector doc1 (Some fieldElement) [Compound [Type ''input'', AttrSuffix ''name'' (ascii ''[day]'')]]
            in setValueOf dayInput (dateParts ! 2)
                 (setValueOf monthInput (dateParts ! 1)
                    (setValueOf yearInput (dateParts ! 0) doc1)))
         else doc1)"

text \<open>The \<open>type\<close> property of an input is \<open>radio\<close> when its attribute says so in any case.\<close>

definition isRadio :: "elem \<Rightarrow> bool" where
  "isRadio e \<longleftrightarrow> map_option asciiLower (getAttribute e ''type'') = Some (ascii ''radio'')"

definition nameOf :: "elem \<Rightarrow> jstring" where
  "nameOf e = (case getAttribute e ''name'' of None \<Rightarrow> [] | Some n \<Rightarrow> n)"

text \<open>
  An input whose \<open>type\<close> attribute says \<open>file\<close> in any case is a file upload: the
  assignment of a string other than \<open>''\<close> to its \<open>value\<close> throws an
  \<open>InvalidStateError\<close>.
\<close>

definition isFileInput :: "elem \<Rightarrow> bool" where
  "isFileInput e \<longleftrightarrow>
     localName e = ascii ''input'' \<and> map_option asciiLower (getAttribute e ''type'') = Some (ascii ''file'')"

text \<open>The branch for every other type.\<close>

definition applyGenericValue :: "browser \<Rightarrow> nat \<Rightarrow> jstring \<Rightarrow> document \<Rightarrow> outcome" where
  "applyGenericValue b fieldElement v doc =
     (case selectFirst doc (Some fieldElement)
             [Compound [Type ''input''], Compound [Type ''select''], Compound [Type ''textarea'']] of
        None \<Rightarrow> Done doc
      | Some x \<Rightarrow>
         (let input = fst (snd x) in
          if localName input = ascii ''select'' then Done (setValue (key input) v doc)
          else if localName input = ascii ''input'' then
            (if isRadio input then
               (case queryRadio b (nameOf input) v doc of
                  Inl e \<Rightarrow> Raised e doc
                | Inr radioGroup \<Rightarrow>
                   (case radioGroup of [] \<Rightarrow> Done doc | r # _ \<Rightarrow> Done (setChecked r doc)))
             else if isFileInput input \<and> v \<noteq> [] then Raised InvalidStateError doc
             else Done (setValue (key input) v doc))
          else Done (setValue (key input) v doc)))"

text \<open>The body of the loop over the keys of \<open>groupData.fields\<close>.\<close>

definition applyField :: "browser \<Rightarrow> FieldGroup \<Rightarrow> jstring \<Rightarrow> jstring \<Rightarrow> document \<Rightarrow> outcome" where
  "applyField b targetGroup k v0 doc =
     (if k = requestContent then Done doc
      else
        (let v = padTime (stripSpace k) v0 in
         case findTargetField targetGroup k of
           None \<Rightarrow> Done doc
         | Some targetField \<Rightarrow>
            (case id_f targetField of
               None \<Rightarrow> Done doc
             | Some i \<Rightarrow>
                if i = [] then Done doc
                else (case getElementById doc i of
                        None \<Rightarrow> Done doc
                      | Some fieldElement \<Rightarrow>
                         if type_f targetField = Some (ascii ''control_datetime'')
                         then Done (applyDateValue fieldElement v doc)
                         else applyGenericValue b fieldElement v doc))))"

fun applyFields :: "browser \<Rightarrow> FieldGroup \<Rightarrow> (jstring \<times> jstring) list \<Rightarrow> document \<Rightarrow> outcome" where
  "applyFields b targetGroup [] doc = Done doc"
| "applyFields b targetGroup ((k, v) # rest) doc =
     (case applyField b targetGroup k v doc of
        Done d \<Rightarrow> applyFields b targetGroup rest d
      | Raised e d \<Rightarrow> Raised e d)"

subsection \<open>The loop over the groups\<close>

text \<open>The callback of \<open>formGroups.forEach\<close>, with \<open>groupData\<close> already looked up.\<close>

definition processGroup :: "browser \<Rightarrow> FieldGroup \<Rightarrow> QueryGroupData option \<Rightarrow> document \<Rightarrow> outcome" where
  "processGroup b targetGroup groupData doc =
     (case reduceBranch targetGroup groupData doc of
        None \<Rightarrow> Done doc
      | Some d1 \<Rightarrow>
         (case groupData of
            None \<Rightarrow> Done d1
          | Some gd \<Rightarrow>
             (case overrideHeader b targetGroup gd d1 of
                Raised e d \<Rightarrow> Raised e d
              | Done d2 \<Rightarrow> applyFields b targetGroup (fields_q gd) d2)))"

fun forEachGroup ::
  "browser \<Rightarrow> (nat \<Rightarrow> QueryGroupData option) \<Rightarrow> nat \<Rightarrow> FieldGroup list \<Rightarrow> document \<Rightarrow> outcome"
where
  "forEachGroup b look index [] doc = Done doc"
| "forEachGroup b look index (targetGroup # rest) doc =
     (case processGroup b targetGroup (look index) doc of
        Done d \<Rightarrow> forEachGroup b look (Suc index) rest d
      | Raised e d \<Rightarrow> Raised e d)"

text \<open>\<open>xs[index]\<close> of an array: \<open>undefined\<close> beyond its end.\<close>

definition at :: "'a list \<Rightarrow> nat \<Rightarrow> 'a option" where
  "at xs i = (if i < length xs then Some (xs ! i) else None)"

text \<open>\<open>applyDataToForm\<close> of \<open>src/form-modifier.ts\<close>: the payload is the array of groups.\<close>

definition applyDataToForm ::
  "browser \<Rightarrow> FieldGroup list \<Rightarrow> QueryGroupData list option \<Rightarrow> document \<Rightarrow> outcome"
where
  "applyDataToForm b formGroups queryData doc =
     forEachGroup b (\<lambda>index. case queryData of None \<Rightarrow> None | Some q \<Rightarrow> at q index) 0 formGroups doc"

text \<open>
  \<open>applyDataToForm\<close> of the second version of the file: the payload is a
  \<open>PrefillData\<close>, whose four top-level values are written first. Each is written to
  the element with a fixed id, if the value is not empty and the element exists; the
  value is then not empty, so the write throws if the element is a file input.
\<close>

definition setTopLevel :: "(jstring \<times> jstring) list \<Rightarrow> jstring \<Rightarrow> string \<Rightarrow> document \<Rightarrow> outcome" where
  "setTopLevel tlv k elementId doc =
     (case map_of tlv k of
        None \<Rightarrow> Done doc
      | Some v \<Rightarrow>
         if v = [] then Done doc
         else (case find (\<lambda>x. getAttribute (fst (snd x)) ''id'' = Some (ascii elementId)) (walkDoc doc) of
                 None \<Rightarrow> Done doc
               | Some x \<Rightarrow>
                  if isFileInput (fst (snd x)) then Raised InvalidStateError doc
                  else Done (setValue (entryKey x) v doc)))"

text \<open>One statement after another: the second runs if the first has not thrown.\<close>

fun andThen :: "outcome \<Rightarrow> (document \<Rightarrow> outcome) \<Rightarrow> outcome" where
  "andThen (Done d) f = f d"
| "andThen (Raised e d) f = Raised e d"

definition childFamilyNameKey :: jstring where
  "childFamilyNameKey = [0x304A, 0x5B50, 0x3055, 0x3093, 0x306E, 0x6C0F, 0x540D, 0x5F, 0x59D3]"

definition childGivenNameKey :: jstring where
  "childGivenNameKey = [0x304A, 0x5B50, 0x3055, 0x3093, 0x306E, 0x6C0F, 0x540D, 0x5F, 0x540D]"

definition guardianMailKey :: jstring where
  "guardianMailKey = [0x4FDD, 0x8B77, 0x8005, 0x30E1, 0x30FC, 0x30EB, 0x30A2, 0x30C9, 0x30EC, 0x30B9]"

definition targetMonthKey :: jstring where
  "targetMonthKey = [0x5BFE, 0x8C61, 0x6708]"

definition applyTopLevel :: "PrefillData option \<Rightarrow> document \<Rightarrow> outcome" where
  "applyTopLevel prefillData doc =
     (case prefillData of
        None \<Rightarrow> Done doc
      | Some pd \<Rightarrow>
         (case topLevel pd of
            None \<Rightarrow> Done doc
          | Some tlv \<Rightarrow>
             andThen
               (andThen
                  (andThen (setTopLevel tlv childFamilyNameKey ''first_195'' doc)
                     (setTopLevel tlv childGivenNameKey ''last_195''))
                  (setTopLevel tlv guardianMailKey ''input_6''))
               (setTopLevel tlv targetMonthKey ''input_34'')))"

definition applyDataToFormPrefill ::
  "browser \<Rightarrow> FieldGroup list \<Rightarrow> PrefillData option \<Rightarrow> document \<Rightarrow> outcome"
where
  "applyDataToFormPrefill b formGroups prefillData doc =
     andThen (applyTopLevel prefillData doc)
       (forEachGroup b (\<lambda>index. case prefillData of None \<Rightarrow> None | Some pd \<Rightarrow> at (groups pd) index)
          0 formGroups)"

section \<open>Example documents\<close>

definition mkElem :: "nat \<Rightarrow> string \<Rightarrow> (string \<times> string) list \<Rightarrow> elem" where
  "mkElem k t as =
     \<lparr>key = k, localName = ascii t, attrs = map (\<lambda>(a, v). (ascii a, ascii v)) as,
      value_p = [], checked_p = False, computedDisplay = ascii ''block'', styleDisplay = []\<rparr>"

text \<open>A radio item: \<open><span class="form-radio-item"><input type="radio" ...></span>\<close>.\<close>

definition radioItem :: "nat \<Rightarrow> string \<Rightarrow> string \<Rightarrow> node" where
  "radioItem k nm v =
     Element (mkElem k ''span'' [(''class'', ''form-radio-item'')])
       [Element (mkElem (Suc k) ''input'' [(''type'', ''radio''), (''name'', nm), (''value'', v)]) []]"

text \<open>
  One section of a form: the header \<open>id_10\<close> with its title, the request-content field
  \<open>id_11\<close> with four choices, and the date field \<open>id_12\<close> with its visible input and
  its three hidden inputs.
\<close>

definition formDoc :: document where
  "formDoc =
     [Element (mkElem 1 ''ul'' [(''class'', ''form-section'')])
        [Element (mkElem 10 ''li'' [(''id'', ''id_10''), (''data-type'', ''control_collapse'')])
           [Element (mkElem 11 ''div'' [(''class'', ''form-collapse-mid'')]) [Text (ascii ''Title'')]],
         Element (mkElem 20 ''li'' [(''id'', ''id_11''), (''data-type'', ''control_radio'')])
           [Element (mkElem 21 ''label'' [(''class'', ''form-label'')]) [Text requestContent],
            radioItem 22 ''q11_request'' ''a'', radioItem 24 ''q11_request'' ''b'',
            radioItem 26 ''q11_request'' ''c'', radioItem 28 ''q11_request'' ''d''],
         Element (mkElem 30 ''li'' [(''id'', ''id_12''), (''data-type'', ''control_datetime'')])
           [Element (mkElem 31 ''label'' [(''class'', ''form-label'')]) [Text (ascii ''Date'')],
            Element (mkElem 32 ''input'' [(''id'', ''lite_mode_12''), (''type'', ''text'')]) [],
            Element (mkElem 33 ''input'' [(''type'', ''tel''), (''name'', ''q12_date[month]'')]) [],
            Element (mkElem 34 ''input'' [(''type'', ''tel''), (''name'', ''q12_date[day]'')]) [],
            Element (mkElem 35 ''input'' [(''type'', ''tel''), (''name'', ''q12_date[year]'')]) []]]]"

definition formGroup :: FieldGroup where
  "formGroup =
     \<lparr>collapseField = mkField ''id_10'' ''control_collapse'' (Some (ascii ''Title'')) 1,
      childFields = [mkField ''id_11'' ''control_radio'' (Some requestContent) 2,
                     mkField ''id_12'' ''control_datetime'' (Some (ascii ''Date'')) 3]\<rparr>"

text \<open>A browser that answers every selector outside the fragment with an exception.\<close>

definition strictBrowser :: browser where
  "strictBrowser = \<lparr>queryOther = (\<lambda>t d. Inl SyntaxError)\<rparr>"

definition inside :: "nat \<Rightarrow> entry \<Rightarrow> bool" where
  "inside k x \<longleftrightarrow> k \<in> set (ancestorKeys x)"

definition keeps :: "nat \<Rightarrow> entry \<Rightarrow> bool" where
  "keeps k x \<longleftrightarrow> entryKey x \<noteq> k \<and> \<not> inside k x"

definition pruneEntry :: "nat \<Rightarrow> entry \<Rightarrow> entry" where
  "pruneEntry k x = (fst x, fst (snd x), concat (map (prune k) (snd (snd x))))"

definition wfDoc :: "document \<Rightarrow> bool" where
  "wfDoc doc \<longleftrightarrow> distinct (map entryKey (walkDoc doc))"

definition upd :: "nat \<Rightarrow> (elem \<Rightarrow> elem) \<Rightarrow> elem \<Rightarrow> elem" where
  "upd k f e = (if key e = k then f e else e)"

definition updEntry :: "nat \<Rightarrow> (elem \<Rightarrow> elem) \<Rightarrow> entry \<Rightarrow> entry" where
  "updEntry k f x = (map (upd k f) (fst x), upd k f (fst (snd x)), map (setProp k f) (snd (snd x)))"

definition textEntry :: "nat \<Rightarrow> jstring \<Rightarrow> entry \<Rightarrow> entry" where
  "textEntry k s x =
     (fst x, fst (snd x),
      if entryKey x = k then (if s = [] then [] else [Text s]) else map (setText k s) (snd (snd x)))"

text \<open>A property write keeps what selectors look at.\<close>

definition frameProp :: "(elem \<Rightarrow> elem) \<Rightarrow> bool" where
  "frameProp f \<longleftrightarrow> (\<forall>e. key (f e) = key e \<and> localName (f e) = localName e \<and> attrs (f e) = attrs e)"

fun ancOK :: "elem set \<Rightarrow> entry list \<Rightarrow> bool" where
  "ancOK S [] = True"
| "ancOK S (x # xs) = (set (fst x) \<subseteq> S \<and> ancOK (insert (fst (snd x)) S) xs)"

definition requestFieldId :: "FieldGroup \<Rightarrow> jstring option" where
  "requestFieldId targetGroup =
     (case find (\<lambda>f. text_f f = Some requestContent) (childFields targetGroup) of
        None \<Rightarrow> None
      | Some requestField \<Rightarrow>
         (case id_f requestField of None \<Rightarrow> None | Some i \<Rightarrow> if i = [] then None else Some i))"

definition choiceEntries :: "document \<Rightarrow> jstring \<Rightarrow> entry list" where
  "choiceEntries doc i =
     (case getElementById doc i of
        None \<Rightarrow> []
      | Some el \<Rightarrow> selectAll doc (Some el) [Compound [Class ''form-radio-item'']])"

definition choiceItems :: "document \<Rightarrow> jstring \<Rightarrow> nat list" where
  "choiceItems doc i = map entryKey (choiceEntries doc i)"

definition choicesAfter :: "FieldGroup \<Rightarrow> QueryGroupData option \<Rightarrow> document \<Rightarrow> jstring \<Rightarrow> nat list option" where
  "choicesAfter targetGroup groupData doc i =
     (case reduceBranch targetGroup groupData doc of None \<Rightarrow> None | Some d \<Rightarrow> Some (choiceItems d i))"

text \<open>The request-content field with its choice items nested in the first one.\<close>

definition nestedDoc :: document where
  "nestedDoc =
     [Element (mkElem 1 ''ul'' [(''class'', ''form-section'')])
        [Element (mkElem 20 ''li'' [(''id'', ''id_11''), (''data-type'', ''control_radio'')])
           [Element (mkElem 21 ''label'' [(''class'', ''form-label'')]) [Text requestContent],
            Element (mkElem 22 ''div'' [(''class'', ''form-radio-item'')])
              [radioItem 24 ''q11_request'' ''b'', radioItem 26 ''q11_request'' ''c'',
               radioItem 28 ''q11_request'' ''d'']]]]"

text \<open>The request-content field with five choice items.\<close>

definition fiveDoc :: document where
  "fiveDoc =
     [Element (mkElem 1 ''ul'' [(''class'', ''form-section'')])
        [Element (mkElem 20 ''li'' [(''id'', ''id_11''), (''data-type'', ''control_radio'')])
           [Element (mkElem 21 ''label'' [(''class'', ''form-label'')]) [Text requestContent],
            radioItem 22 ''q11_request'' ''a'', radioItem 24 ''q11_request'' ''b'',
            radioItem 26 ''q11_request'' ''c'', radioItem 28 ''q11_request'' ''d'',
            radioItem 30 ''q11_request'' ''e'']]]"

text \<open>The choice item with key \<open>k\<close> and value \<open>v\<close> of \<open>formDoc\<close>, as the traversal meets it.\<close>

definition formItem :: "nat \<Rightarrow> string \<Rightarrow> entry" where
  "formItem k v =
     ([mkElem 20 ''li'' [(''id'', ''id_11''), (''data-type'', ''control_radio'')],
       mkElem 1 ''ul'' [(''class'', ''form-section'')]],
      mkElem k ''span'' [(''class'', ''form-radio-item'')],
      [Element (mkElem (Suc k) ''input'' [(''type'', ''radio''), (''name'', ''q11_request''), (''value'', v)]) []])"

definition emptyEntry :: QueryGroupData where
  "emptyEntry = \<lparr>headerText = [], fields_q = []\<rparr>"

text \<open>
  What a run leaves of the document: the elements with their properties, and the text
  nodes, each with the key of its parent.
\<close>

definition elemsOf :: "document \<Rightarrow> elem set" where
  "elemsOf doc = set (map (\<lambda>x. fst (snd x)) (walkDoc doc))"

fun textsIn :: "nat option \<Rightarrow> node \<Rightarrow> (nat option \<times> jstring) list" where
  "textsIn p (Text s) = [(p, s)]"
| "textsIn p (Element e ks) = concat (map (textsIn (Some (key e))) ks)"

definition textsOf :: "document \<Rightarrow> (nat option \<times> jstring) set" where
  "textsOf doc = set (concat (map (textsIn None) doc))"

text \<open>The callback of the loop when there is no payload entry for the group.\<close>

definition nullStep :: "document \<Rightarrow> FieldGroup \<Rightarrow> document" where
  "nullStep doc targetGroup =
     (case reduceBranch targetGroup None doc of None \<Rightarrow> doc | Some d \<Rightarrow> d)"

definition changedEntry :: QueryGroupData where
  "changedEntry = \<lparr>headerText = ascii ''Changed'', fields_q = [(ascii ''Date'', ascii ''2024-5-03'')]\<rparr>"

text \<open>
  The local names and attribute lists of the elements of a document: no mutation of the
  source adds one.
\<close>

definition shapesOf :: "document \<Rightarrow> (jstring \<times> (jstring \<times> jstring) list) set" where
  "shapesOf doc = set (map (\<lambda>x. (localName (fst (snd x)), attrs (fst (snd x)))) (walkDoc doc))"

text \<open>A browser that answers every selector outside the fragment with no match.\<close>

definition quietBrowser :: browser where
  "quietBrowser = \<lparr>queryOther = (\<lambda>t d. Inr [])\<rparr>"

text \<open>
  Conditions under which no statement of \<open>applyDataToForm\<close> throws. The two selectors
  built at run time stay in the fragment where they are valid: the header id is absent,
  empty or an ASCII identifier; the payload values and the \<open>name\<close> attributes of the
  document hold no quote, backslash, newline, NUL or surrogate. And no write of a value
  meets a file input: the document has none.
\<close>

definition safeGroup :: "FieldGroup \<Rightarrow> bool" where
  "safeGroup targetGroup =
     (case id_f (collapseField targetGroup) of None \<Rightarrow> True | Some h \<Rightarrow> h = [] \<or> isAsciiIdent h)"

definition safeEntry :: "QueryGroupData \<Rightarrow> bool" where
  "safeEntry groupData = list_all (\<lambda>kv. list_all isPlainChar (snd kv)) (fields_q groupData)"

definition safeElem :: "elem \<Rightarrow> bool" where
  "safeElem e \<longleftrightarrow> list_all isPlainChar (nameOf e) \<and> \<not> isFileInput e"

definition safeDoc :: "document \<Rightarrow> bool" where
  "safeDoc doc = list_all (\<lambda>x. safeElem (fst (snd x))) (walkDoc doc)"

text \<open>
  Two sections. The first has, beside its request-content field, a radio field
  labelled \<open>Seat\<close>.
\<close>

definition twoDoc :: document where
  "twoDoc =
     [Element (mkElem 1 ''ul'' [(''class'', ''form-section'')])
        [Element (mkElem 10 ''li'' [(''id'', ''id_10''), (''data-type'', ''control_collapse'')])
           [Element (mkElem 11 ''div'' [(''class'', ''form-collapse-mid'')]) [Text (ascii ''First'')]],
         Element (mkElem 20 ''li'' [(''id'', ''id_11''), (''data-type'', ''control_radio'')])
           [radioItem 22 ''q11'' ''a'', radioItem 24 ''q11'' ''b'',
            radioItem 26 ''q11'' ''c'', radioItem 28 ''q11'' ''d''],
         Element (mkElem 30 ''li'' [(''id'', ''id_13''), (''data-type'', ''control_radio'')])
           [Element (mkElem 31 ''label'' [(''class'', ''form-label'')]) [Text (ascii ''Seat'')],
            Element (mkElem 32 ''input'' [(''type'', ''radio''), (''name'', ''q13''), (''value'', ''x'')]) []],
         Element (mkElem 40 ''li'' [(''id'', ''id_20''), (''data-type'', ''control_collapse'')])
           [Element (mkElem 41 ''div'' [(''class'', ''form-collapse-mid'')]) [Text (ascii ''Second'')]],
         Element (mkElem 50 ''li'' [(''id'', ''id_21''), (''data-type'', ''control_radio'')])
           [radioItem 52 ''q21'' ''a'', radioItem 54 ''q21'' ''b'',
            radioItem 56 ''q21'' ''c'', radioItem 58 ''q21'' ''d'']]]"

definition firstGroup :: FieldGroup where
  "firstGroup =
     \<lparr>collapseField = mkField ''id_10'' ''control_collapse'' (Some (ascii ''First'')) 1,
      childFields = [mkField ''id_11'' ''control_radio'' (Some requestContent) 2,
                     mkField ''id_13'' ''control_radio'' (Some (ascii ''Seat'')) 3]\<rparr>"

definition secondGroup :: FieldGroup where
  "secondGroup =
     \<lparr>collapseField = mkField ''id_20'' ''control_collapse'' (Some (ascii ''Second'')) 4,
      childFields = [mkField ''id_21'' ''control_radio'' (Some requestContent) 5]\<rparr>"

text \<open>A payload entry whose value for \<open>Seat\<close> holds a line feed: \<open>{"Seat": "a\nb"}\<close>.\<close>

definition seatEntry :: QueryGroupData where
  "seatEntry = \<lparr>headerText = [], fields_q = [(ascii ''Seat'', [97, 10, 98])]\<rparr>"


text \<open>The \<open>value\<close> property of the element with key \<open>k\<close>, if it is in the document.\<close>

definition valueOf :: "document \<Rightarrow> nat \<Rightarrow> jstring option" where
  "valueOf doc k =
     map_option (\<lambda>x. value_p (fst (snd x))) (find (\<lambda>x. entryKey x = k) (walkDoc doc))"

text \<open>The inputs of a date field that the source looks up.\<close>

definition visibleDateInput :: "document \<Rightarrow> nat \<Rightarrow> nat option" where
  "visibleDateInput doc fieldElement =
     querySelector doc (Some fieldElement) [Compound [Type ''input'', AttrPrefix ''id'' (ascii ''lite_mode_'')]]"


text \<open>The reserved key with a space in front.\<close>

definition spacedKey :: jstring where
  "spacedKey = 32 # requestContent"

text \<open>The \<open>checked\<close> property of the element with key \<open>k\<close>, if it is in the document.\<close>

definition checkedOf :: "document \<Rightarrow> nat \<Rightarrow> bool option" where
  "checkedOf doc k =
     map_option (\<lambda>x. checked_p (fst (snd x))) (find (\<lambda>x. entryKey x = k) (walkDoc doc))"

text \<open>The first control of a field: what the generic branch looks up.\<close>

definition firstControl :: "document \<Rightarrow> nat \<Rightarrow> entry option" where
  "firstControl doc fieldElement =
     selectFirst doc (Some fieldElement)
       [Compound [Type ''input''], Compound [Type ''select''], Compound [Type ''textarea'']]"

text \<open>
  The inputs of the document with a \<open>name\<close> and a \<open>value\<close> attribute: what the selector
  built for a radio input finds when it is valid.
\<close>

definition inputsWith :: "document \<Rightarrow> jstring \<Rightarrow> jstring \<Rightarrow> nat list" where
  "inputsWith doc nm v =
     querySelectorAll doc None [Compound [Type ''input'', AttrEq ''name'' nm, AttrEq ''value'' v]]"

text \<open>
  A section whose first member is a text box labelled with the reserved words and a space
  between them; the request-content field comes after it.
\<close>

definition spacedLabel :: jstring where
  "spacedLabel = [0x30EA, 0x30AF, 0x30A8, 0x30B9, 0x30C8, 32, 0x5185, 0x5BB9]"

definition shadowDoc :: document where
  "shadowDoc =
     [Element (mkElem 1 ''ul'' [(''class'', ''form-section'')])
        [Element (mkElem 10 ''li'' [(''id'', ''id_10''), (''data-type'', ''control_collapse'')])
           [Element (mkElem 11 ''div'' [(''class'', ''form-collapse-mid'')]) [Text (ascii ''Title'')]],
         Element (mkElem 40 ''li'' [(''id'', ''id_14''), (''data-type'', ''control_textbox'')])
           [Element (mkElem 41 ''label'' [(''class'', ''form-label'')]) [Text spacedLabel],
            Element (mkElem 42 ''input'' [(''type'', ''text''), (''name'', ''q14_note'')]) []],
         Element (mkElem 20 ''li'' [(''id'', ''id_11''), (''data-type'', ''control_radio'')])
           [Element (mkElem 21 ''label'' [(''class'', ''form-label'')]) [Text requestContent],
            radioItem 22 ''q11_request'' ''a'', radioItem 24 ''q11_request'' ''b'',
            radioItem 26 ''q11_request'' ''c'', radioItem 28 ''q11_request'' ''d'']]]"

definition shadowGroup :: FieldGroup where
  "shadowGroup =
     \<lparr>collapseField = mkField ''id_10'' ''control_collapse'' (Some (ascii ''Title'')) 1,
      childFields = [mkField ''id_14'' ''control_textbox'' (Some spacedLabel) 2,
                     mkField ''id_11'' ''control_radio'' (Some requestContent) 3]\<rparr>"

text \<open>A section with a file upload field beside its request-content field.\<close>

definition uploadDoc :: document where
  "uploadDoc =
     [Element (mkElem 1 ''ul'' [(''class'', ''form-section'')])
        [Element (mkElem 10 ''li'' [(''id'', ''id_10''), (''data-type'', ''control_collapse'')])
           [Element (mkElem 11 ''div'' [(''class'', ''form-collapse-mid'')]) [Text (ascii ''Title'')]],
         Element (mkElem 20 ''li'' [(''id'', ''id_11''), (''data-type'', ''control_radio'')])
           [Element (mkElem 21 ''label'' [(''class'', ''form-label'')]) [Text requestContent],
            radioItem 22 ''q11_request'' ''a'', radioItem 24 ''q11_request'' ''b'',
            radioItem 26 ''q11_request'' ''c'', radioItem 28 ''q11_request'' ''d''],
         Element (mkElem 30 ''li'' [(''id'', ''id_15''), (''data-type'', ''control_fileupload'')])
           [Element (mkElem 31 ''label'' [(''class'', ''form-label'')]) [Text (ascii ''Upload'')],
            Element (mkElem 32 ''input'' [(''type'', ''file''), (''name'', ''q15_upload[]'')]) []]]]"

definition uploadGroup :: FieldGroup where
  "uploadGroup =
     \<lparr>collapseField = mkField ''id_10'' ''control_collapse'' (Some (ascii ''Title'')) 1,
      childFields = [mkField ''id_11'' ''control_radio'' (Some requestContent) 2,
                     mkField ''id_15'' ''control_fileupload'' (Some (ascii ''Upload'')) 3]\<rparr>"

definition uploadEntry :: QueryGroupData where
  "uploadEntry = \<lparr>headerText = [], fields_q = [(ascii ''Upload'', ascii ''x'')]\<rparr>"

section \<open>Decoding the payload (parseQueryParameters)\<close>

subsection \<open>atob: forgiving base64\<close>

definition b64val :: "16 word \<Rightarrow> nat option" where
  "b64val c =
     (if 65 \<le> c \<and> c \<le> 90 then Some (unat c - 65)
      else if 97 \<le> c \<and> c \<le> 122 then Some (unat c - 71)
      else if 48 \<le> c \<and> c \<le> 57 then Some (unat c + 4)
      else if c = 43 then Some 62
      else if c = 47 then Some 63
      else None)"

text \<open>The bytes of the groups of four sextets; two or three sextets at the end give one or two bytes.\<close>

fun b64bytes :: "nat list \<Rightarrow> nat list" where
  "b64bytes (a # b # c # d # rest) =
     (let n = ((a * 64 + b) * 64 + c) * 64 + d
      in n div 65536 # (n div 256) mod 256 # n mod 256 # b64bytes rest)"
| "b64bytes [a, b, c] = (let n = (a * 64 + b) * 64 + c in [n div 1024, (n div 4) mod 256])"
| "b64bytes [a, b] = [(a * 64 + b) div 16]"
| "b64bytes other = []"

definition stripPadding :: "jstring \<Rightarrow> jstring" where
  "stripPadding s =
     (if length s mod 4 = 0 then
        (if s \<noteq> [] \<and> last s = 61 then
           (if butlast s \<noteq> [] \<and> last (butlast s) = 61 then butlast (butlast s) else butlast s)
         else s)
      else s)"

definition atob :: "jstring \<Rightarrow> exn + jstring" where
  "atob input =
     (let s = stripPadding (filter (\<lambda>c. \<not> isAsciiSpace c) input) in
      if length s mod 4 = 1 then Inl InvalidCharacterError
      else if list_ex (\<lambda>c. b64val c = None) s then Inl InvalidCharacterError
      else Inr (map of_nat (b64bytes (map (\<lambda>c. the (b64val c)) s))))"

subsection \<open>TextDecoder: UTF-8 with replacement\<close>

text \<open>
  The decoder of the Encoding standard: \<open>needed\<close> continuation bytes are still to come
  for the code point \<open>cp\<close>, the next one within \<open>lo\<close> and \<open>hi\<close>. A malformed
  sequence gives \<open>None\<close> and decoding goes on, with the offending byte read again.
\<close>

fun utf8 :: "nat \<Rightarrow> nat \<Rightarrow> nat \<Rightarrow> nat \<Rightarrow> nat list \<Rightarrow> nat option list" where
  "utf8 needed cp lo hi [] = (if needed = 0 then [] else [None])"
| "utf8 needed cp lo hi (x # bs) =
     (if needed = 0 then
        (if x \<le> 0x7F then Some x # utf8 0 0 0x80 0xBF bs
         else if 0xC2 \<le> x \<and> x \<le> 0xDF then utf8 1 (x mod 32) 0x80 0xBF bs
         else if 0xE0 \<le> x \<and> x \<le> 0xEF then
           utf8 2 (x mod 16) (if x = 0xE0 then 0xA0 else 0x80) (if x = 0xED then 0x9F else 0xBF) bs
         else if 0xF0 \<le> x \<and> x \<le> 0xF4 then
           utf8 3 (x mod 8) (if x = 0xF0 then 0x90 else 0x80) (if x = 0xF4 then 0x8F else 0xBF) bs
         else None # utf8 0 0 0x80 0xBF bs)
      else if x < lo \<or> hi < x then None # utf8 0 0 0x80 0xBF (x # bs)
      else if needed = 1 then Some (cp * 64 + x mod 64) # utf8 0 0 0x80 0xBF bs
      else utf8 (needed - 1) (cp * 64 + x mod 64) 0x80 0xBF bs)"

definition utf8Decode :: "8 word list \<Rightarrow> nat option list" where
  "utf8Decode bytes = utf8 0 0 0x80 0xBF (map unat bytes)"

definition validUtf8 :: "8 word list \<Rightarrow> bool" where
  "validUtf8 bytes \<longleftrightarrow> None \<notin> set (utf8Decode bytes)"

fun toUtf16 :: "nat option \<Rightarrow> jstring" where
  "toUtf16 None = [0xFFFD]"
| "toUtf16 (Some cp) =
     (if cp < 0x10000 then [of_nat cp]
      else [of_nat (0xD800 + (cp - 0x10000) div 1024), of_nat (0xDC00 + (cp - 0x10000) mod 1024)])"

definition stripBOM :: "8 word list \<Rightarrow> 8 word list" where
  "stripBOM bytes = (if take 3 bytes = [0xEF, 0xBB, 0xBF] then drop 3 bytes else bytes)"

text \<open>\<open>new TextDecoder().decode(bytes)\<close>: UTF-8, not fatal, the byte order mark dropped.\<close>

definition textDecode :: "8 word list \<Rightarrow> jstring" where
  "textDecode bytes = concat (map toUtf16 (utf8Decode (stripBOM bytes)))"

subsection \<open>JSON.parse\<close>

text \<open>
  The values of JSON; a number is kept as its text, an object as the list of its members
  in the order of the text.
\<close>

datatype json =
    JNull
  | JBool bool
  | JNumber jstring
  | JString jstring
  | JArray "json list"
  | JObject "(jstring \<times> json) list"

definition isJsonSpace :: "16 word \<Rightarrow> bool" where
  "isJsonSpace c \<longleftrightarrow> c = 9 \<or> c = 10 \<or> c = 13 \<or> c = 32"

definition skipSpace :: "jstring \<Rightarrow> jstring" where
  "skipSpace s = dropWhile isJsonSpace s"

definition hexVal :: "16 word \<Rightarrow> nat option" where
  "hexVal c =
     (if 48 \<le> c \<and> c \<le> 57 then Some (unat c - 48)
      else if 65 \<le> c \<and> c \<le> 70 then Some (unat c - 55)
      else if 97 \<le> c \<and> c \<le> 102 then Some (unat c - 87)
      else None)"

text \<open>The four hexadecimal digits of a \<open>\u\<close> escape.\<close>

definition hex4 :: "jstring \<Rightarrow> 16 word option" where
  "hex4 s =
     (if length s < 4 \<or> list_ex (\<lambda>c. hexVal c = None) (take 4 s) then None
      else Some (of_nat (foldl (\<lambda>n c. n * 16 + the (hexVal c)) 0 (take 4 s))))"

definition simpleEscape :: "16 word \<Rightarrow> 16 word option" where
  "simpleEscape e =
     (if e = 34 \<or> e = 92 \<or> e = 47 then Some e
      else if e = 98 then Some 8
      else if e = 102 then Some 12
      else if e = 110 then Some 10
      else if e = 114 then Some 13
      else if e = 116 then Some 9
      else None)"

text \<open>The characters of a string after its opening quote; the result is the string and the rest.\<close>

fun stringChars :: "jstring \<Rightarrow> jstring \<Rightarrow> (jstring \<times> jstring) option" where
  "stringChars acc [] = None"
| "stringChars acc [c] = (if c = 34 then Some (rev acc, []) else None)"
| "stringChars acc (c # e # r) =
     (if c = 34 then Some (rev acc, e # r)
      else if c = 92 then
        (if e = 117 then
           (case hex4 r of None \<Rightarrow> None | Some u \<Rightarrow> stringChars (u # acc) (drop 4 r))
         else (case simpleEscape e of None \<Rightarrow> None | Some x \<Rightarrow> stringChars (x # acc) r))
      else if c < 32 then None
      else stringChars (c # acc) (e # r))"

text \<open>The text of a number at the head of the input, and the rest.\<close>

definition digitRun :: "jstring \<Rightarrow> jstring" where
  "digitRun s = takeWhile isAsciiDigit s"

definition intPart :: "jstring \<Rightarrow> (jstring \<times> jstring) option" where
  "intPart s =
     (case s of
        [] \<Rightarrow> None
      | c # r \<Rightarrow>
         if c = 48 then Some ([c], r)
         else if isAsciiDigit c then Some (c # digitRun r, dropWhile isAsciiDigit r)
         else None)"

definition fracPart :: "jstring \<Rightarrow> (jstring \<times> jstring) option" where
  "fracPart s =
     (case s of
        [] \<Rightarrow> Some ([], [])
      | c # r \<Rightarrow>
         if c = 46 then (if digitRun r = [] then None else Some (c # digitRun r, dropWhile isAsciiDigit r))
         else Some ([], s))"

definition expPart :: "jstring \<Rightarrow> (jstring \<times> jstring) option" where
  "expPart s =
     (case s of
        [] \<Rightarrow> Some ([], [])
      | c # r \<Rightarrow>
         if c = 101 \<or> c = 69 then
           (case r of
              [] \<Rightarrow> None
            | g # t \<Rightarrow>
               if g = 43 \<or> g = 45 then
                 (if digitRun t = [] then None else Some (c # g # digitRun t, dropWhile isAsciiDigit t))
               else if digitRun r = [] then None
               else Some (c # digitRun r, dropWhile isAsciiDigit r))
         else Some ([], s))"

definition numberText :: "jstring \<Rightarrow> (jstring \<times> jstring) option" where
  "numberText s =
     (let sign = (if s \<noteq> [] \<and> hd s = 45 then [45] else []);
          s1 = drop (length sign) s
      in case intPart s1 of
           None \<Rightarrow> None
         | Some (i, s2) \<Rightarrow>
            (case fracPart s2 of
               None \<Rightarrow> None
             | Some (f, s3) \<Rightarrow>
                (case expPart s3 of
                   None \<Rightarrow> None
                 | Some (e, s4) \<Rightarrow> Some (sign @ i @ f @ e, s4))))"

text \<open>A value that is not an array or an object.\<close>

definition scalar :: "jstring \<Rightarrow> (json \<times> jstring) option" where
  "scalar s =
     (case s of
        [] \<Rightarrow> None
      | c # r \<Rightarrow>
         if c = 34 then map_option (\<lambda>(x, t). (JString x, t)) (stringChars [] r)
         else if isPrefix (ascii ''true'') s then Some (JBool True, drop 4 s)
         else if isPrefix (ascii ''false'') s then Some (JBool False, drop 5 s)
         else if isPrefix (ascii ''null'') s then Some (JNull, drop 4 s)
         else map_option (\<lambda>(x, t). (JNumber x, t)) (numberText s))"

text \<open>
  The parser proper. An open array or object is a frame: the elements or the members
  read so far, and for an object the key that waits for its value. Every step reads at
  least one character; the test on the lengths after a scalar makes this plain.
\<close>

datatype frame = InArray "json list" | InObject "(jstring \<times> json) list" jstring

function (sequential) parseValue :: "frame list \<Rightarrow> jstring \<Rightarrow> json option"
  and afterValue :: "frame list \<Rightarrow> json \<Rightarrow> jstring \<Rightarrow> json option"
  and parseKey :: "frame list \<Rightarrow> (jstring \<times> json) list \<Rightarrow> jstring \<Rightarrow> json option"
where
  "parseValue stack s =
     (case skipSpace s of
        [] \<Rightarrow> None
      | c # r \<Rightarrow>
         if c = 91 then
           (case skipSpace r of
              [] \<Rightarrow> None
            | d # t \<Rightarrow> if d = 93 then afterValue stack (JArray []) t
                       else parseValue (InArray [] # stack) (d # t))
         else if c = 123 then
           (case skipSpace r of
              [] \<Rightarrow> None
            | d # t \<Rightarrow> if d = 125 then afterValue stack (JObject []) t
                       else parseKey stack [] (d # t))
         else
           (case scalar (c # r) of
              None \<Rightarrow> None
            | Some (v, t) \<Rightarrow> if length t < length (c # r) then afterValue stack v t else None))"
| "afterValue [] v s = (if skipSpace s = [] then Some v else None)"
| "afterValue (InArray vs # stack) v s =
     (case skipSpace s of
        [] \<Rightarrow> None
      | c # r \<Rightarrow>
         if c = 44 then parseValue (InArray (v # vs) # stack) r
         else if c = 93 then afterValue stack (JArray (rev (v # vs))) r
         else None)"
| "afterValue (InObject ms k # stack) v s =
     (case skipSpace s of
        [] \<Rightarrow> None
      | c # r \<Rightarrow>
         if c = 44 then parseKey stack ((k, v) # ms) r
         else if c = 125 then afterValue stack (JObject (rev ((k, v) # ms))) r
         else None)"
| "parseKey stack ms s =
     (case skipSpace s of
        [] \<Rightarrow> None
      | c # r \<Rightarrow>
         if c = 34 then
           (case stringChars [] r of
              None \<Rightarrow> None
            | Some (k, t) \<Rightarrow>
               (case skipSpace t of
                  [] \<Rightarrow> None
                | d # u \<Rightarrow>
                   if d = 58 \<and> length u < length r then parseValue (InObject ms k # stack) u else None))
         else None)"
  by pat_completeness auto

termination
proof -
  have sk: "\<And>s c r. skipSpace s = c # r \<Longrightarrow> length r < length s"
  proof -
    fix s :: jstring and c r assume a: "skipSpace s = c # r"
    have "length (dropWhile isJsonSpace s) \<le> length s" by (rule length_dropWhile_le)
    with a show "length r < length s" by (simp add: skipSpace_def)
  qed
  show ?thesis
    by (relation "measure (\<lambda>x. case x of
        Inl (stack, s) \<Rightarrow> length s
      | Inr (Inl (stack, v, s)) \<Rightarrow> length s
      | Inr (Inr (stack, ms, s)) \<Rightarrow> length s)") (auto dest!: sk)
qed

text \<open>\<open>JSON.parse(text)\<close>: the value, or a SyntaxError.\<close>

definition JSON_parse :: "jstring \<Rightarrow> exn + json" where
  "JSON_parse text = (case parseValue [] text of None \<Rightarrow> Inl SyntaxError | Some v \<Rightarrow> Inr v)"

subsection \<open>parseQueryParameters\<close>

text \<open>\<open>data.replace(/ /g, '+')\<close>\<close>

definition restorePlus :: "jstring \<Rightarrow> jstring" where
  "restorePlus s = map (\<lambda>c. if c = 32 then 43 else c) s"

text \<open>The body of the \<open>try\<close> block.\<close>

definition decodePayload :: "jstring \<Rightarrow> exn + json" where
  "decodePayload d =
     (case atob (restorePlus d) of
        Inl e \<Rightarrow> Inl e
      | Inr binaryString \<Rightarrow>
         (let bytes = map ucast binaryString;
              decodedString = textDecode bytes
          in JSON_parse decodedString))"

text \<open>
  \<open>parseQueryParameters\<close>, of both versions of the file; the argument is what
  \<open>params.get('data')\<close> returns. The \<open>catch\<close> block logs and returns \<open>null\<close>.
\<close>

definition parseQueryParameters :: "jstring option \<Rightarrow> exn + json" where
  "parseQueryParameters d =
     (case d of
        None \<Rightarrow> Inr JNull
      | Some s \<Rightarrow>
         if s = [] then Inr JNull
         else (case decodePayload s of Inl e \<Rightarrow> Inr JNull | Inr v \<Rightarrow> Inr v))"

text \<open>The bytes of \<open>[{"headerText":"?","fields":{}}]\<close> with the byte FF for the question mark.\<close>

definition brokenBytes :: jstring where
  "brokenBytes = ascii ''[{\"headerText\":\"'' @ [0xFF] @ ascii ''\",\"fields\":{}}]''"

section \<open>Extracting the fields (jotform-parser.ts)\<close>

text \<open>\<open>node.textContent\<close>: the text of the descendants, in document order.\<close>

fun textOf :: "node \<Rightarrow> jstring" where
  "textOf (Text s) = s"
| "textOf (Element e ks) = concat (map textOf ks)"

definition textContent :: "entry \<Rightarrow> jstring" where
  "textContent x = concat (map textOf (snd (snd x)))"

text \<open>\<open>s.trim()\<close> removes the same characters as \<open>\s\<close> matches.\<close>

definition trim :: "jstring \<Rightarrow> jstring" where
  "trim s = rev (dropWhile isJsSpace (rev (dropWhile isJsSpace s)))"

text \<open>\<open>x || null\<close> for a string that may be missing.\<close>

definition orNull :: "jstring option \<Rightarrow> jstring option" where
  "orNull v = (case v of None \<Rightarrow> None | Some s \<Rightarrow> if s = [] then None else Some s)"

text \<open>The \<open>id\<close> property reflects the attribute and is empty without it.\<close>

definition idOf :: "elem \<Rightarrow> jstring" where
  "idOf e = (case getAttribute e ''id'' of None \<Rightarrow> [] | Some i \<Rightarrow> i)"

text \<open>\<open>name.match(/^q(\d+)_/)\<close>: the first group of the match.\<close>

definition qidMatch :: "jstring \<Rightarrow> jstring option" where
  "qidMatch name =
     (case name of
        [] \<Rightarrow> None
      | c # r \<Rightarrow>
         if c = 113 \<and> takeWhile isAsciiDigit r \<noteq> [] \<and>
            (case dropWhile isAsciiDigit r of [] \<Rightarrow> False | u # _ \<Rightarrow> u = 95)
         then Some (takeWhile isAsciiDigit r) else None)"

text \<open>\<open>s.match(/\d+/)\<close>: the first run of digits.\<close>

definition digitsMatch :: "jstring \<Rightarrow> jstring option" where
  "digitsMatch s =
     (let run = takeWhile isAsciiDigit (dropWhile (\<lambda>c. \<not> isAsciiDigit c) s)
      in if run = [] then None else Some run)"

text \<open>\<open>s.replace(pat, rep)\<close> with a string pattern: the first occurrence only.\<close>

fun replaceFirst :: "jstring \<Rightarrow> jstring \<Rightarrow> jstring \<Rightarrow> jstring" where
  "replaceFirst pat rep [] = (if pat = [] then rep else [])"
| "replaceFirst pat rep (c # cs) =
     (if isPrefix pat (c # cs) then rep @ drop (length pat) (c # cs)
      else c # replaceFirst pat rep cs)"

text \<open>
  \<open>select.options\<close>: the \<open>option\<close> children of the \<open>select\<close> and those of its
  \<open>optgroup\<close> children. \<open>option.text\<close>: the text outside \<open>script\<close> descendants, its
  ASCII whitespace stripped and collapsed.
\<close>

definition isNamed :: "string \<Rightarrow> node \<Rightarrow> bool" where
  "isNamed t n = (case n of Text s \<Rightarrow> False | Element e ks \<Rightarrow> localName e = ascii t)"

fun childrenOf :: "node \<Rightarrow> node list" where
  "childrenOf (Text s) = []"
| "childrenOf (Element e ks) = ks"

definition optionsOf :: "entry \<Rightarrow> node list" where
  "optionsOf x =
     concat (map (\<lambda>n. if isNamed ''option'' n then [n]
                       else if isNamed ''optgroup'' n then filter (isNamed ''option'') (childrenOf n)
                       else [])
                 (snd (snd x)))"

fun plainText :: "node \<Rightarrow> jstring" where
  "plainText (Text s) = s"
| "plainText (Element e ks) = (if localName e = ascii ''script'' then [] else concat (map plainText ks))"

fun joinWith :: "jstring \<Rightarrow> jstring list \<Rightarrow> jstring" where
  "joinWith sep [] = []"
| "joinWith sep [w] = w"
| "joinWith sep (w # v # ws) = w @ sep @ joinWith sep (v # ws)"

definition optionText :: "node \<Rightarrow> jstring" where
  "optionText opt = joinWith [32] (tokens isAsciiSpace [] (concat (map plainText (childrenOf opt))))"

text \<open>
  The candidate elements: the list items of the sections, and the element \<open>#id_2\<close> of
  the submit button after them when it is not one of them.
\<close>

definition fieldElements :: "document \<Rightarrow> entry list" where
  "fieldElements doc =
     selectAll doc None [Child [Class ''form-section''] [Type ''li''],
                         Child [Class ''form-section-closed''] [Type ''li'']]"

definition buttonElement :: "document \<Rightarrow> entry option" where
  "buttonElement doc = selectFirst doc None [Compound [Id (ascii ''id_2'')]]"

definition includesElem :: "entry list \<Rightarrow> entry \<Rightarrow> bool" where
  "includesElem xs b \<longleftrightarrow> entryKey b \<in> set (map entryKey xs)"

definition allElements :: "document \<Rightarrow> entry list" where
  "allElements doc =
     (case buttonElement doc of
        None \<Rightarrow> fieldElements doc
      | Some b \<Rightarrow> if \<not> includesElem (fieldElements doc) b then fieldElements doc @ [b]
                  else fieldElements doc)"

text \<open>The descriptor before the \<open>switch\<close> on the type.\<close>

definition isHidden :: "entry \<Rightarrow> bool" where
  "isHidden x \<longleftrightarrow>
     computedDisplay (fst (snd x)) = ascii ''none'' \<or>
     ascii ''form-field-hidden'' \<in> set (classList (fst (snd x))) \<or>
     (case fst x of [] \<Rightarrow> False | p # _ \<Rightarrow> styleDisplay p = ascii ''none'')"

definition labelText :: "entry option \<Rightarrow> jstring option" where
  "labelText l = map_option (\<lambda>x. trim (textContent x)) l"

definition baseField :: "document \<Rightarrow> nat \<Rightarrow> entry \<Rightarrow> FormField" where
  "baseField doc order x =
     (let el = fst (snd x);
          nameAttrSource = selectFirst doc (Some (key el)) [Compound [HasAttr ''name'']];
          labelEl = selectFirst doc (Some (key el))
                      [Compound [Class ''form-label''], Compound [Class ''form-header''],
                       Compound [Class ''form-collapse-mid'']];
          subLabelEl = selectFirst doc (Some (key el)) [Compound [Class ''form-sub-label'']]
      in \<lparr>qid = (case nameAttrSource of None \<Rightarrow> None | Some n \<Rightarrow> qidMatch (nameOf (fst (snd n)))),
          id_f = Some (idOf el),
          name_f = (case nameAttrSource of None \<Rightarrow> None
                    | Some n \<Rightarrow> Some (hd (split 91 (nameOf (fst (snd n)))))),
          type_f = orNull (getAttribute el ''data-type''),
          text_f = orNull (labelText labelEl),
          subLabel = labelText subLabelEl,
          options = None, subfields = None, defaultValue = None, validation = None,
          hidden = isHidden x,
          order_f = order\<rparr>)"

text \<open>The \<open>switch\<close> on the type.\<close>

definition dropdownField :: "document \<Rightarrow> elem \<Rightarrow> FormField \<Rightarrow> FormField" where
  "dropdownField doc el field =
     (let selectEl = selectFirst doc (Some (key el)) [Compound [Type ''select'']]
      in field\<lparr>name_f := (case selectEl of None \<Rightarrow> None | Some s \<Rightarrow> orNull (Some (nameOf (fst (snd s))))),
               qid := (case selectEl of None \<Rightarrow> None | Some s \<Rightarrow> orNull (qidMatch (nameOf (fst (snd s))))),
               options := Some (case selectEl of None \<Rightarrow> []
                                | Some s \<Rightarrow> map (\<lambda>opt. Some (optionText opt)) (optionsOf s))\<rparr>)"

definition radioField :: "document \<Rightarrow> elem \<Rightarrow> FormField \<Rightarrow> FormField" where
  "radioField doc el field =
     field\<lparr>options := Some (map (\<lambda>item. labelText (selectFirst doc (Some (entryKey item)) [Compound [Type ''label'']]))
                              (selectAll doc (Some (key el)) [Compound [Class ''form-radio-item'']]))\<rparr>"

definition fullnameField :: "document \<Rightarrow> elem \<Rightarrow> FormField \<Rightarrow> FormField" where
  "fullnameField doc el field =
     field\<lparr>subfields := Some (map (\<lambda>sub. (getAttribute (fst (snd sub)) ''data-input-type'',
                                          labelText (selectFirst doc (Some (entryKey sub)) [Compound [Type ''label'']])))
                                (selectAll doc (Some (key el)) [Compound [Class ''form-sub-label-container'']]))\<rparr>"

definition emailField :: "document \<Rightarrow> elem \<Rightarrow> FormField \<Rightarrow> FormField" where
  "emailField doc el field =
     (case selectFirst doc (Some (key el)) [Compound [Type ''input'', AttrEqCI ''type'' (ascii ''email'')]] of
        None \<Rightarrow> field
      | Some emailInput \<Rightarrow>
         if ascii ''validate[Email]'' \<in> set (classList (fst (snd emailInput)))
         then field\<lparr>validation := Some (ascii ''Email'')\<rparr> else field)"

definition buttonField :: "document \<Rightarrow> elem \<Rightarrow> FormField \<Rightarrow> FormField" where
  "buttonField doc el field =
     (let buttonEl = selectFirst doc (Some (key el)) [Compound [Type ''button'']]
      in field\<lparr>qid := Some (replaceFirst (ascii ''id_'') [] (idOf el)),
               text_f := labelText buttonEl,
               name_f := Some (ascii ''submit'')\<rparr>)"

definition switchType :: "document \<Rightarrow> elem \<Rightarrow> FormField \<Rightarrow> FormField" where
  "switchType doc el field =
     (if type_f field = Some (ascii ''control_dropdown'') then dropdownField doc el field
      else if type_f field = Some (ascii ''control_radio'') then radioField doc el field
      else if type_f field = Some (ascii ''control_fullname'') then fullnameField doc el field
      else if type_f field = Some (ascii ''control_email'') then emailField doc el field
      else if type_f field = Some (ascii ''control_button'') then buttonField doc el field
      else field)"

text \<open>The \<open>qid\<close> of a descriptor that has none yet: the first number of the element id.\<close>

definition qidFallback :: "elem \<Rightarrow> FormField \<Rightarrow> FormField" where
  "qidFallback el field =
     (if orNull (qid field) = None then
        (case digitsMatch (idOf el) of None \<Rightarrow> field | Some d \<Rightarrow> field\<lparr>qid := Some d\<rparr>)
      else field)"

text \<open>The callback of \<open>allElements.map\<close>, with the value of \<open>order\<close> before the call.\<close>

definition extractField :: "document \<Rightarrow> nat \<Rightarrow> entry \<Rightarrow> FormField" where
  "extractField doc order x =
     qidFallback (fst (snd x)) (switchType doc (fst (snd x)) (baseField doc order x))"

text \<open>\<open>allElements.map\<close>: the callback increments \<open>order\<close> at each element.\<close>

fun mapFields :: "document \<Rightarrow> nat \<Rightarrow> entry list \<Rightarrow> FormField list" where
  "mapFields doc order [] = []"
| "mapFields doc order (el # els) = extractField doc order el # mapFields doc (Suc order) els"

definition extractFieldsFromDOM :: "document \<Rightarrow> FormField list" where
  "extractFieldsFromDOM doc = mapFields doc 1 (allElements doc)"

text \<open>The form of \<open>formDoc\<close> with its submit button, which lies outside the list.\<close>

definition submitDoc :: document where
  "submitDoc =
     formDoc @
     [Element (mkElem 40 ''div'' [(''id'', ''id_2''), (''data-type'', ''control_button'')])
        [Element (mkElem 41 ''button'' [(''type'', ''submit'')]) [Text (ascii '' Send '')]]]"

section \<open>Normalization of labels and keys\<close>

lemma stripSpace_idem: "stripSpace (stripSpace s) = stripSpace s"
  by (simp add: stripSpace_def)

lemma sameUpToSpace_strip: "sameUpToSpace s t \<Longrightarrow> stripSpace s = stripSpace t"
  by (induction rule: sameUpToSpace.induct) (simp_all add: stripSpace_def)

lemma sameUpToSpace_refl: "sameUpToSpace s s"
  by (induction s) (auto intro: sameUpToSpace.intros)

lemma sameUpToSpace_stripped_left: "sameUpToSpace (stripSpace s) s"
proof (induction s)
  case Nil
  show ?case by (simp add: stripSpace_def sus_Nil)
next
  case (Cons c s)
  show ?case
  proof (cases "isJsSpace c")
    case True
    with Cons show ?thesis by (simp add: stripSpace_def sus_Right)
  next
    case False
    with Cons show ?thesis by (simp add: stripSpace_def sus_Keep)
  qed
qed

lemma sameUpToSpace_stripped_right: "sameUpToSpace s (stripSpace s)"
proof (induction s)
  case Nil
  show ?case by (simp add: stripSpace_def sus_Nil)
next
  case (Cons c s)
  show ?case
  proof (cases "isJsSpace c")
    case True
    with Cons show ?thesis by (simp add: stripSpace_def sus_Left)
  next
    case False
    with Cons show ?thesis by (simp add: stripSpace_def sus_Keep)
  qed
qed

lemma sameUpToSpace_cons_space:
  "isJsSpace c \<Longrightarrow> sameUpToSpace s t \<Longrightarrow> sameUpToSpace (c # s) t"
  by (rule sus_Left)

lemma sameUpToSpace_from_stripped:
  "sameUpToSpace (stripSpace s) t \<Longrightarrow> sameUpToSpace s t"
proof (induction s arbitrary: t)
  case Nil
  then show ?case by (simp add: stripSpace_def)
next
  case (Cons c s)
  show ?case
  proof (cases "isJsSpace c")
    case True
    with Cons.prems have "sameUpToSpace (stripSpace s) t" by (simp add: stripSpace_def)
    then have "sameUpToSpace s t" by (rule Cons.IH)
    with True show ?thesis by (rule sus_Left)
  next
    case False
    with Cons.prems have p: "sameUpToSpace (c # stripSpace s) t" by (simp add: stripSpace_def)
    from p False Cons.IH show ?thesis
    proof (induction "c # stripSpace s" t rule: sameUpToSpace.induct)
      case (sus_Keep t')
      then show ?case by (simp add: sameUpToSpace.sus_Keep)
    next
      case (sus_Left t')
      then show ?case by simp
    next
      case (sus_Right d t')
      then show ?case by (simp add: sameUpToSpace.sus_Right)
    qed
  qed
qed

text \<open>
  C8. Removing all whitespace is idempotent, and two strings that differ only in
  whitespace, inside or at the ends, have the same normal form. The relation is the
  whole kernel of the normalization: strings with the same normal form differ only in
  whitespace.
\<close>

theorem C8_normalization:
  "stripSpace (stripSpace s) = stripSpace s \<and>
   (sameUpToSpace s t \<longleftrightarrow> stripSpace s = stripSpace t)"
proof (intro conjI iffI)
  show "stripSpace (stripSpace s) = stripSpace s" by (rule stripSpace_idem)
next
  assume "sameUpToSpace s t"
  then show "stripSpace s = stripSpace t" by (rule sameUpToSpace_strip)
next
  assume eq: "stripSpace s = stripSpace t"
  have "sameUpToSpace (stripSpace t) t" by (rule sameUpToSpace_stripped_left)
  with eq have "sameUpToSpace (stripSpace s) t" by simp
  then show "sameUpToSpace s t" by (rule sameUpToSpace_from_stripped)
qed

theorem C8_normalization_witness:
  "stripSpace (stripSpace [0x3000, 0x6642, 32]) = stripSpace [0x3000, 0x6642, 32] \<and>
   sameUpToSpace [0x3000, 0x6642, 32] [0x6642, 9] \<and>
   stripSpace [0x3000, 0x6642, 32] = [0x6642]"
  using C8_normalization [of "[0x3000, 0x6642, 32]" "[0x6642, 9]"]
  by (simp add: stripSpace_def isJsSpace_def)

section \<open>The Grouper\<close>

lemma groupFields_closeGroups:
  "groupFields fs = closeGroups (foldl groupStep ([], None) fs)"
  by (simp add: groupFields_def split: prod.splits option.splits)

lemma closeGroups_step_flat:
  "concat (map flatGroup (closeGroups (groupStep (gs, cur) f))) =
     concat (map flatGroup (closeGroups (gs, cur))) @
     (if cur = None \<and> \<not> isCollapse f then [] else [f])"
  by (cases cur) (simp_all add: flatGroup_def)

lemma closeGroups_step_length:
  "length (closeGroups (groupStep (gs, cur) f)) =
     length (closeGroups (gs, cur)) + (if isCollapse f then 1 else 0)"
  by (cases cur) simp_all

lemma groupStep_open:
  "snd (groupStep (gs, cur) f) = None \<longleftrightarrow> cur = None \<and> \<not> isCollapse f"
  by (cases cur) simp_all

lemma foldl_groupStep_flat:
  "concat (map flatGroup (closeGroups (foldl groupStep (gs, cur) fs))) =
     concat (map flatGroup (closeGroups (gs, cur))) @
     (if cur = None then dropWhile (\<lambda>f. \<not> isCollapse f) fs else fs)"
proof (induction fs arbitrary: gs cur)
  case Nil
  show ?case by simp
next
  case (Cons f fs)
  obtain gs' cur' where st: "groupStep (gs, cur) f = (gs', cur')"
    by (cases "groupStep (gs, cur) f") auto
  have op: "cur' = None \<longleftrightarrow> cur = None \<and> \<not> isCollapse f"
    using groupStep_open [of gs cur f] st by simp
  have fl: "concat (map flatGroup (closeGroups (gs', cur'))) =
      concat (map flatGroup (closeGroups (gs, cur))) @
      (if cur = None \<and> \<not> isCollapse f then [] else [f])"
    using closeGroups_step_flat [of gs cur f] st by simp
  have "concat (map flatGroup (closeGroups (foldl groupStep (gs, cur) (f # fs)))) =
      concat (map flatGroup (closeGroups (foldl groupStep (gs', cur') fs)))"
    using st by simp
  also have "\<dots> = concat (map flatGroup (closeGroups (gs', cur'))) @
      (if cur' = None then dropWhile (\<lambda>f. \<not> isCollapse f) fs else fs)"
    by (rule Cons.IH)
  also have "\<dots> = concat (map flatGroup (closeGroups (gs, cur))) @
      (if cur = None then dropWhile (\<lambda>f. \<not> isCollapse f) (f # fs) else f # fs)"
    using op fl by (cases "cur = None"; cases "isCollapse f") auto
  finally show ?case .
qed

lemma foldl_groupStep_length:
  "length (closeGroups (foldl groupStep (gs, cur) fs)) =
     length (closeGroups (gs, cur)) + length (filter isCollapse fs)"
proof (induction fs arbitrary: gs cur)
  case Nil
  show ?case by simp
next
  case (Cons f fs)
  obtain gs' cur' where st: "groupStep (gs, cur) f = (gs', cur')"
    by (cases "groupStep (gs, cur) f") auto
  have "length (closeGroups (gs', cur')) =
      length (closeGroups (gs, cur)) + (if isCollapse f then 1 else 0)"
    using closeGroups_step_length [of gs cur f] st by simp
  with Cons.IH [of gs' cur'] st show ?case by simp
qed

lemma groupFields_length: "length (groupFields fs) = length (filter isCollapse fs)"
  by (simp add: groupFields_closeGroups foldl_groupStep_length)

text \<open>
  C3. The Grouper makes at most as many groups as the input has section headers
  (descriptors of type \<open>control_collapse\<close>), and the groups written out flat, header
  then members, in output order, are the input from its first header onward: each of
  these descriptors once, in input order, and none of those before the first header.
\<close>

theorem C3_groupFields:
  "length (groupFields fs) \<le> length (filter isCollapse fs) \<and>
   concat (map flatGroup (groupFields fs)) = dropWhile (\<lambda>f. \<not> isCollapse f) fs \<and>
   takeWhile (\<lambda>f. \<not> isCollapse f) fs @ concat (map flatGroup (groupFields fs)) = fs"
proof -
  have "concat (map flatGroup (groupFields fs)) = dropWhile (\<lambda>f. \<not> isCollapse f) fs"
    using foldl_groupStep_flat [of "[]" None fs] by (simp add: groupFields_closeGroups)
  then show ?thesis by (simp add: groupFields_length)
qed

theorem C3_groupFields_witness:
  "length (groupFields
      [mkField ''id_1'' ''control_textbox'' None 1, mkField ''id_2'' ''control_collapse'' None 2,
       mkField ''id_3'' ''control_radio'' None 3, mkField ''id_4'' ''control_collapse'' None 4]) \<le> 2 \<and>
   concat (map flatGroup (groupFields
      [mkField ''id_1'' ''control_textbox'' None 1, mkField ''id_2'' ''control_collapse'' None 2,
       mkField ''id_3'' ''control_radio'' None 3, mkField ''id_4'' ''control_collapse'' None 4])) =
     [mkField ''id_2'' ''control_collapse'' None 2, mkField ''id_3'' ''control_radio'' None 3,
      mkField ''id_4'' ''control_collapse'' None 4]"
  using C3_groupFields
    [of "[mkField ''id_1'' ''control_textbox'' None 1, mkField ''id_2'' ''control_collapse'' None 2,
          mkField ''id_3'' ''control_radio'' None 3, mkField ''id_4'' ''control_collapse'' None 4]"]
  by (simp add: isCollapse_def mkField_def ascii_def)

lemma walk_ancestors: "x \<in> set (walk anc n) \<Longrightarrow> set anc \<subseteq> set (fst x)"
proof (induction n arbitrary: anc x)
  case (Text s)
  then show ?case by simp
next
  case (Element e ks)
  from Element.prems consider "x = (anc, e, ks)" | k where "k \<in> set ks" "x \<in> set (walk (e # anc) k)"
    by auto
  then show ?case
  proof cases
    case 1
    then show ?thesis by simp
  next
    case 2
    then have "set (e # anc) \<subseteq> set (fst x)" using Element.IH by blast
    then show ?thesis by auto
  qed
qed

lemma concat_map_concat: "concat (map f (concat xss)) = concat (map (\<lambda>xs. concat (map f xs)) xss)"
  by (induction xss) simp_all

lemma walk_prune:
  "k \<notin> set (map key anc) \<Longrightarrow>
   concat (map (walk anc) (prune k n)) = map (pruneEntry k) (filter (keeps k) (walk anc n))"
proof (induction n arbitrary: anc)
  case (Text s)
  show ?case by simp
next
  case (Element e ks)
  show ?case
  proof (cases "key e = k")
    case True
    have "\<And>x. x \<in> set (concat (map (walk (e # anc)) ks)) \<Longrightarrow> \<not> keeps k x"
    proof -
      fix x assume "x \<in> set (concat (map (walk (e # anc)) ks))"
      then obtain c where "c \<in> set ks" "x \<in> set (walk (e # anc) c)" by auto
      then have "e \<in> set (fst x)" using walk_ancestors by fastforce
      then show "\<not> keeps k x" using True by (auto simp: keeps_def inside_def ancestorKeys_def)
    qed
    then have "filter (keeps k) (concat (map (walk (e # anc)) ks)) = []"
      by (simp add: filter_empty_conv)
    moreover have "\<not> keeps k (anc, e, ks)" using True by (simp add: keeps_def entryKey_def)
    ultimately show ?thesis using True by simp
  next
    case False
    have k: "k \<notin> set (map key (e # anc))" using False Element.prems by auto
    have ih: "\<And>c. c \<in> set ks \<Longrightarrow>
        concat (map (walk (e # anc)) (prune k c)) = map (pruneEntry k) (filter (keeps k) (walk (e # anc) c))"
      using Element.IH k by blast
    have "concat (map (walk (e # anc)) (concat (map (prune k) ks))) =
        concat (map (\<lambda>c. concat (map (walk (e # anc)) (prune k c))) ks)"
      by (simp add: concat_map_concat comp_def)
    also have "\<dots> = concat (map (\<lambda>c. map (pruneEntry k) (filter (keeps k) (walk (e # anc) c))) ks)"
      using ih by (metis (mono_tags, lifting) map_eq_conv)
    also have "\<dots> = map (pruneEntry k) (filter (keeps k) (concat (map (walk (e # anc)) ks)))"
      by (simp add: map_concat filter_concat comp_def)
    finally have rest: "concat (map (walk (e # anc)) (concat (map (prune k) ks))) =
        map (pruneEntry k) (filter (keeps k) (concat (map (walk (e # anc)) ks)))" .
    have hd: "keeps k (anc, e, ks)" using False Element.prems
      by (simp add: keeps_def entryKey_def inside_def ancestorKeys_def)
    have "pruneEntry k (anc, e, ks) = (anc, e, concat (map (prune k) ks))"
      by (simp add: pruneEntry_def)
    with hd rest show ?thesis using False by simp
  qed
qed

lemma walkDoc_removeNode:
  "walkDoc (removeNode k doc) = map (pruneEntry k) (filter (keeps k) (walkDoc doc))"
proof -
  have "walkDoc (removeNode k doc) = concat (map (\<lambda>n. concat (map (walk []) (prune k n))) doc)"
    by (simp add: walkDoc_def removeNode_def concat_map_concat comp_def)
  also have "\<dots> = concat (map (\<lambda>n. map (pruneEntry k) (filter (keeps k) (walk [] n))) doc)"
    by (simp add: walk_prune)
  also have "\<dots> = map (pruneEntry k) (filter (keeps k) (walkDoc doc))"
    by (simp add: walkDoc_def map_concat filter_concat comp_def)
  finally show ?thesis .
qed

lemma setProp_Element: "setProp k f (Element e ks) = Element (upd k f e) (map (setProp k f) ks)"
  by (simp add: upd_def)

lemma walk_setProp:
  "walk (map (upd k f) anc) (setProp k f n) = map (updEntry k f) (walk anc n)"
proof (induction n arbitrary: anc)
  case (Text s)
  show ?case by simp
next
  case (Element e ks)
  have "\<And>c. c \<in> set ks \<Longrightarrow>
      walk (map (upd k f) (e # anc)) (setProp k f c) = map (updEntry k f) (walk (e # anc) c)"
    using Element.IH by blast
  then have "concat (map (\<lambda>c. walk (upd k f e # map (upd k f) anc) (setProp k f c)) ks) =
      concat (map (\<lambda>c. map (updEntry k f) (walk (e # anc) c)) ks)"
    by (simp cong: map_cong)
  moreover have "updEntry k f (anc, e, ks) = (map (upd k f) anc, upd k f e, map (setProp k f) ks)"
    by (simp add: updEntry_def)
  ultimately show ?case
    by (simp only: setProp_Element walk.simps list.map map_concat map_map comp_def)
qed

lemma walkDoc_setProp:
  "walkDoc (map (setProp k f) doc) = map (updEntry k f) (walkDoc doc)"
proof -
  have "\<And>n. walk [] (setProp k f n) = map (updEntry k f) (walk [] n)"
    using walk_setProp [of k f "[]"] by simp
  then show ?thesis by (simp add: walkDoc_def map_concat comp_def)
qed

lemma walk_setText:
  "k \<notin> set (map key anc) \<Longrightarrow>
   walk anc (setText k s n) = map (textEntry k s) (filter (\<lambda>x. \<not> inside k x) (walk anc n))"
proof (induction n arbitrary: anc)
  case (Text t)
  show ?case by simp
next
  case (Element e ks)
  have hd: "\<not> inside k (anc, e, ks)" using Element.prems by (simp add: inside_def ancestorKeys_def)
  show ?case
  proof (cases "key e = k")
    case True
    have "\<And>x. x \<in> set (concat (map (walk (e # anc)) ks)) \<Longrightarrow> inside k x"
    proof -
      fix x assume "x \<in> set (concat (map (walk (e # anc)) ks))"
      then obtain c where "c \<in> set ks" "x \<in> set (walk (e # anc) c)" by auto
      then have "e \<in> set (fst x)" using walk_ancestors by fastforce
      then show "inside k x" using True by (auto simp: inside_def ancestorKeys_def)
    qed
    then have "filter (\<lambda>x. \<not> inside k x) (concat (map (walk (e # anc)) ks)) = []"
      by (simp add: filter_empty_conv)
    moreover have "textEntry k s (anc, e, ks) = (anc, e, if s = [] then [] else [Text s])"
      using True by (simp add: textEntry_def entryKey_def)
    ultimately show ?thesis using True hd by simp
  next
    case False
    have k: "k \<notin> set (map key (e # anc))" using False Element.prems by auto
    have "\<And>c. c \<in> set ks \<Longrightarrow>
        walk (e # anc) (setText k s c) = map (textEntry k s) (filter (\<lambda>x. \<not> inside k x) (walk (e # anc) c))"
      using Element.IH k by blast
    then have "concat (map (\<lambda>c. walk (e # anc) (setText k s c)) ks) =
        concat (map (\<lambda>c. map (textEntry k s) (filter (\<lambda>x. \<not> inside k x) (walk (e # anc) c))) ks)"
      by (simp cong: map_cong)
    also have "\<dots> = map (textEntry k s) (filter (\<lambda>x. \<not> inside k x) (concat (map (walk (e # anc)) ks)))"
      by (simp add: map_concat filter_concat comp_def)
    finally have rest: "concat (map (\<lambda>c. walk (e # anc) (setText k s c)) ks) =
        map (textEntry k s) (filter (\<lambda>x. \<not> inside k x) (concat (map (walk (e # anc)) ks)))" .
    have "textEntry k s (anc, e, ks) = (anc, e, map (setText k s) ks)"
      using False by (simp add: textEntry_def entryKey_def)
    with rest hd show ?thesis using False by (simp add: comp_def)
  qed
qed

lemma walkDoc_setTextContent:
  "walkDoc (setTextContent k s doc) = map (textEntry k s) (filter (\<lambda>x. \<not> inside k x) (walkDoc doc))"
proof -
  have "\<And>n. walk [] (setText k s n) = map (textEntry k s) (filter (\<lambda>x. \<not> inside k x) (walk [] n))"
    using walk_setText [of k "[]"] by simp
  then show ?thesis by (simp add: walkDoc_def setTextContent_def map_concat filter_concat comp_def)
qed

subsection \<open>What selectors see\<close>

lemma pruneEntry_sel [simp]:
  "fst (pruneEntry k x) = fst x" "fst (snd (pruneEntry k x)) = fst (snd x)"
  by (simp_all add: pruneEntry_def)

lemma textEntry_sel [simp]:
  "fst (textEntry k s x) = fst x" "fst (snd (textEntry k s x)) = fst (snd x)"
  by (simp_all add: textEntry_def)

lemma entryKey_pruneEntry [simp]: "entryKey (pruneEntry k x) = entryKey x"
  by (simp add: entryKey_def)

lemma entryKey_textEntry [simp]: "entryKey (textEntry k s x) = entryKey x"
  by (simp add: entryKey_def)

lemma ancestorKeys_pruneEntry [simp]: "ancestorKeys (pruneEntry k x) = ancestorKeys x"
  by (simp add: ancestorKeys_def)

lemma ancestorKeys_textEntry [simp]: "ancestorKeys (textEntry k s x) = ancestorKeys x"
  by (simp add: ancestorKeys_def)

lemma selects_pruneEntry [simp]: "selects scope sels (pruneEntry k x) = selects scope sels x"
  by (cases scope) (simp_all add: selects_def inScope_def)

lemma selects_textEntry [simp]: "selects scope sels (textEntry k s x) = selects scope sels x"
  by (cases scope) (simp_all add: selects_def inScope_def)

lemma key_upd: "frameProp f \<Longrightarrow> key (upd k f e) = key e"
  by (simp add: upd_def frameProp_def)

lemma getAttribute_upd: "frameProp f \<Longrightarrow> getAttribute (upd k f e) a = getAttribute e a"
  by (simp add: upd_def frameProp_def getAttribute_def)

lemma matchSimple_upd: "frameProp f \<Longrightarrow> matchSimple s (upd k f e) = matchSimple s e"
  by (cases s) (simp_all add: getAttribute_upd classList_def, simp add: upd_def frameProp_def)

lemma matchCompound_upd: "frameProp f \<Longrightarrow> matchCompound c (upd k f e) = matchCompound c e"
  by (simp add: matchCompound_def matchSimple_upd)

lemma matchSelector_upd:
  "frameProp f \<Longrightarrow> matchSelector s (map (upd k f) anc) (upd k f e) = matchSelector s anc e"
proof (cases s)
  case (Compound c)
  assume "frameProp f"
  then show ?thesis using Compound by (simp add: matchCompound_upd)
next
  case (Descendant a c)
  assume fp: "frameProp f"
  have "list_ex (matchCompound a) (map (upd k f) anc) = list_ex (matchCompound a) anc"
    using fp by (simp add: list_ex_iff matchCompound_upd)
  then show ?thesis using Descendant fp by (simp add: matchCompound_upd)
next
  case (Child a c)
  assume fp: "frameProp f"
  then show ?thesis using Child by (cases anc) (simp_all add: matchCompound_upd)
qed

lemma entryKey_updEntry [simp]: "frameProp f \<Longrightarrow> entryKey (updEntry k f x) = entryKey x"
  by (simp add: entryKey_def updEntry_def key_upd)

lemma ancestorKeys_updEntry [simp]: "frameProp f \<Longrightarrow> ancestorKeys (updEntry k f x) = ancestorKeys x"
  by (simp add: ancestorKeys_def updEntry_def key_upd)

lemma selects_updEntry [simp]:
  "frameProp f \<Longrightarrow> selects scope sels (updEntry k f x) = selects scope sels x"
proof -
  assume fp: "frameProp f"
  have "inScope scope (updEntry k f x) = inScope scope x"
    using fp by (cases scope) (simp_all add: inScope_def)
  moreover have "list_ex (\<lambda>s. matchSelector s (fst (updEntry k f x)) (fst (snd (updEntry k f x)))) sels =
      list_ex (\<lambda>s. matchSelector s (fst x) (fst (snd x))) sels"
    using fp by (simp add: updEntry_def matchSelector_upd)
  ultimately show ?thesis by (simp add: selects_def)
qed

lemma frameProp_value [simp]: "frameProp (\<lambda>e. e\<lparr>value_p := v\<rparr>)"
  by (simp add: frameProp_def)

lemma frameProp_checked [simp]: "frameProp (\<lambda>e. e\<lparr>checked_p := c\<rparr>)"
  by (simp add: frameProp_def)

subsection \<open>Queries after a mutation\<close>

lemma find_map_entry: "find P (map f xs) = map_option f (find (\<lambda>x. P (f x)) xs)"
  by (induction xs) simp_all

lemma find_filter_entry: "find P (filter Q xs) = find (\<lambda>x. Q x \<and> P x) xs"
  by (induction xs) simp_all

lemma selectAll_removeNode:
  "selectAll (removeNode k doc) scope sels =
     map (pruneEntry k) (filter (keeps k) (selectAll doc scope sels))"
proof -
  have "filter (selects scope sels) (filter (keeps k) (walkDoc doc)) =
      filter (keeps k) (filter (selects scope sels) (walkDoc doc))"
    by (simp add: conj_commute)
  then show ?thesis
    by (simp add: selectAll_def walkDoc_removeNode filter_map comp_def)
qed

lemma querySelectorAll_removeNode:
  "querySelectorAll (removeNode k doc) scope sels =
     map entryKey (filter (keeps k) (selectAll doc scope sels))"
  by (simp add: querySelectorAll_def selectAll_removeNode comp_def)

lemma getElementById_removeNode:
  "getElementById (removeNode k doc) i =
     map_option entryKey
       (find (\<lambda>x. keeps k x \<and> getAttribute (fst (snd x)) ''id'' = Some i) (walkDoc doc))"
  by (simp add: getElementById_def walkDoc_removeNode find_map_entry find_filter_entry
      option.map_comp comp_def)

lemma selectAll_setProp:
  "frameProp f \<Longrightarrow>
   selectAll (map (setProp k f) doc) scope sels = map (updEntry k f) (selectAll doc scope sels)"
  by (simp add: selectAll_def walkDoc_setProp filter_map comp_def)

lemma querySelectorAll_setProp:
  "frameProp f \<Longrightarrow>
   querySelectorAll (map (setProp k f) doc) scope sels = querySelectorAll doc scope sels"
  by (simp add: querySelectorAll_def selectAll_setProp comp_def)

lemma selectFirst_setProp:
  "frameProp f \<Longrightarrow>
   selectFirst (map (setProp k f) doc) scope sels = map_option (updEntry k f) (selectFirst doc scope sels)"
  by (simp add: selectFirst_def walkDoc_setProp find_map_entry)

lemma querySelector_setProp:
  "frameProp f \<Longrightarrow>
   querySelector (map (setProp k f) doc) scope sels = querySelector doc scope sels"
  by (simp add: querySelector_def selectFirst_setProp option.map_comp comp_def)

lemma getElementById_setProp:
  "frameProp f \<Longrightarrow> getElementById (map (setProp k f) doc) i = getElementById doc i"
proof -
  assume fp: "frameProp f"
  have "\<And>x. getAttribute (fst (snd (updEntry k f x))) ''id'' = getAttribute (fst (snd x)) ''id''"
    using fp by (simp add: updEntry_def getAttribute_upd)
  then show ?thesis using fp
    by (simp add: getElementById_def walkDoc_setProp find_map_entry option.map_comp comp_def)
qed

lemma querySelector_setValue [simp]:
  "querySelector (setValue k v doc) scope sels = querySelector doc scope sels"
  by (simp add: setValue_def querySelector_setProp)

lemma querySelector_setValueOf [simp]:
  "querySelector (setValueOf el v doc) scope sels = querySelector doc scope sels"
  by (cases el) (simp_all add: setValueOf_def)

lemma getElementById_setValue [simp]:
  "getElementById (setValue k v doc) i = getElementById doc i"
  by (simp add: setValue_def getElementById_setProp)

subsection \<open>Ancestors come first\<close>

lemma ancOK_mono: "ancOK S xs \<Longrightarrow> S \<subseteq> T \<Longrightarrow> ancOK T xs"
proof (induction xs arbitrary: S T)
  case Nil
  show ?case by simp
next
  case (Cons x xs)
  from Cons.prems have "ancOK (insert (fst (snd x)) S) xs" by simp
  moreover have "insert (fst (snd x)) S \<subseteq> insert (fst (snd x)) T" using Cons.prems by auto
  ultimately have "ancOK (insert (fst (snd x)) T) xs" by (rule Cons.IH)
  with Cons.prems show ?case by auto
qed

lemma ancOK_append:
  "ancOK S (xs @ ys) \<longleftrightarrow> ancOK S xs \<and> ancOK (S \<union> (\<lambda>x. fst (snd x)) ` set xs) ys"
  by (induction xs arbitrary: S) (simp_all add: Un_commute insert_commute Un_insert_right)

lemma ancOK_concat:
  "(\<And>xs. xs \<in> set xss \<Longrightarrow> ancOK S xs) \<Longrightarrow> ancOK S (concat xss)"
proof (induction xss)
  case Nil
  show ?case by simp
next
  case (Cons xs xss)
  have a: "ancOK S xs" using Cons.prems by simp
  have "ancOK S (concat xss)" using Cons by simp
  then have "ancOK (S \<union> (\<lambda>x. fst (snd x)) ` set xs) (concat xss)"
    by (rule ancOK_mono) auto
  with a show ?case by (simp add: ancOK_append)
qed

lemma ancOK_walk: "ancOK (set anc) (walk anc n)"
proof (induction n arbitrary: anc)
  case (Text s)
  show ?case by simp
next
  case (Element e ks)
  have "ancOK (set (e # anc)) (concat (map (walk (e # anc)) ks))"
  proof (rule ancOK_concat)
    fix xs assume "xs \<in> set (map (walk (e # anc)) ks)"
    then obtain c where "c \<in> set ks" "xs = walk (e # anc) c" by auto
    then show "ancOK (set (e # anc)) xs" using Element.IH by blast
  qed
  then show ?case by simp
qed

lemma ancOK_walkDoc: "ancOK {} (walkDoc doc)"
proof -
  have "ancOK (set []) (concat (map (walk []) doc))"
  proof (rule ancOK_concat)
    fix xs assume "xs \<in> set (map (walk []) doc)"
    then obtain c where "xs = walk [] c" by auto
    then show "ancOK (set []) xs" using ancOK_walk by blast
  qed
  then show ?thesis by (simp add: walkDoc_def)
qed

lemma ancOK_split:
  "ancOK S (pre @ x # post) \<Longrightarrow> set (fst x) \<subseteq> S \<union> (\<lambda>y. fst (snd y)) ` set pre"
  by (simp add: ancOK_append)

text \<open>In a document with distinct keys an entry is inside entries that come before it only.\<close>

lemma inside_before:
  assumes wf: "wfDoc doc" and sp: "walkDoc doc = pre @ x # post" and ins: "inside k x"
  shows "k \<in> entryKey ` set pre \<and> k \<noteq> entryKey x \<and> k \<notin> entryKey ` set post"
proof -
  have "ancOK {} (pre @ x # post)" using ancOK_walkDoc [of doc] sp by simp
  then have "set (fst x) \<subseteq> (\<lambda>y. fst (snd y)) ` set pre" using ancOK_split by fastforce
  moreover from ins obtain e where "e \<in> set (fst x)" "key e = k"
    by (auto simp: inside_def ancestorKeys_def)
  ultimately obtain y where y: "y \<in> set pre" "entryKey y = k" by (auto simp: entryKey_def)
  have "distinct (map entryKey (pre @ x # post))" using wf sp by (simp add: wfDoc_def)
  then have "entryKey x \<notin> entryKey ` set pre" "entryKey ` set pre \<inter> entryKey ` set post = {}"
    by auto
  moreover have "k \<in> entryKey ` set pre" using y by (metis imageI)
  ultimately show ?thesis by blast
qed

lemma filter_eq_append_Cons:
  "filter P xs = ys1 @ x # ys2 \<Longrightarrow>
   \<exists>pre post. xs = pre @ x # post \<and> filter P pre = ys1 \<and> filter P post = ys2"
proof (induction ys1 arbitrary: xs)
  case Nil
  then obtain us vs where "xs = us @ x # vs" "\<forall>u\<in>set us. \<not> P u" "ys2 = filter P vs"
    by (auto simp: filter_eq_Cons_iff)
  then show ?case by (intro exI [of _ us] exI [of _ vs]) simp
next
  case (Cons y ys1)
  from Cons.prems obtain us vs where
    xs: "xs = us @ y # vs" and us: "\<forall>u\<in>set us. \<not> P u" and y: "P y" and vs: "ys1 @ x # ys2 = filter P vs"
    by (auto simp: filter_eq_Cons_iff)
  from Cons.IH [of vs] vs obtain pre post where
    "vs = pre @ x # post" "filter P pre = ys1" "filter P post = ys2" by auto
  then show ?case using xs us y
    by (intro exI [of _ "us @ y # pre"] exI [of _ post]) simp
qed

lemma later_not_around:
  assumes wf: "wfDoc doc" and f: "filter P (walkDoc doc) = ys1 @ x # ys2" and y: "y \<in> set ys2"
  shows "\<not> inside (entryKey y) x \<and> entryKey y \<noteq> entryKey x"
proof -
  from filter_eq_append_Cons [OF f] obtain pre post where
    sp: "walkDoc doc = pre @ x # post" and post: "filter P post = ys2"
    by blast
  from y post have yp: "y \<in> set post" by auto
  have d: "distinct (map entryKey (pre @ x # post))" using wf sp by (simp add: wfDoc_def)
  then have "entryKey x \<notin> entryKey ` set post" by simp
  then have "entryKey y \<noteq> entryKey x" using yp by (metis imageI)
  moreover have "\<not> inside (entryKey y) x"
  proof
    assume "inside (entryKey y) x"
    then have "entryKey y \<notin> entryKey ` set post" using inside_before [OF wf sp] by blast
    with yp show False by blast
  qed
  ultimately show ?thesis by simp
qed

lemma inside_asym:
  assumes wf: "wfDoc doc" and x: "x \<in> set (walkDoc doc)" and y: "y \<in> set (walkDoc doc)"
    and ins: "inside (entryKey y) x"
  shows "\<not> inside (entryKey x) y \<and> entryKey x \<noteq> entryKey y"
proof -
  from x obtain pre post where sp: "walkDoc doc = pre @ x # post" by (auto dest: split_list)
  from inside_before [OF wf sp ins]
  have k: "entryKey y \<in> entryKey ` set pre" "entryKey y \<noteq> entryKey x" "entryKey y \<notin> entryKey ` set post"
    by auto
  have "y \<in> set pre" using y sp k by auto
  then obtain p1 p2 where pre: "pre = p1 @ y # p2" by (auto dest: split_list)
  have sp2: "walkDoc doc = p1 @ y # (p2 @ x # post)" using sp pre by simp
  have "\<not> inside (entryKey x) y"
  proof
    assume "inside (entryKey x) y"
    then have "entryKey x \<notin> entryKey ` set (p2 @ x # post)" using inside_before [OF wf sp2] by blast
    then show False by simp
  qed
  with k show ?thesis by simp
qed

lemma keeps_pruneEntry [simp]: "keeps k (pruneEntry j x) = keeps k x"
  by (simp add: keeps_def inside_def)

lemma find_conj_Some: "find P xs = Some x \<Longrightarrow> Q x \<Longrightarrow> find (\<lambda>x. Q x \<and> P x) xs = Some x"
  by (induction xs) (auto split: if_splits)

lemma find_Some_set: "find P xs = Some x \<Longrightarrow> x \<in> set xs \<and> P x"
  by (induction xs) (auto split: if_splits)

lemma getElementById_entry:
  "getElementById doc i = Some el \<Longrightarrow>
   \<exists>xe. find (\<lambda>x. getAttribute (fst (snd x)) ''id'' = Some i) (walkDoc doc) = Some xe \<and>
        entryKey xe = el \<and> xe \<in> set (walkDoc doc)"
  by (auto simp: getElementById_def dest: find_Some_set)

text \<open>The scope element of a query stays when one of the selected elements is removed.\<close>

lemma scope_keeps:
  assumes wf: "wfDoc doc" and xe: "xe \<in> set (walkDoc doc)" and y: "y \<in> set (selectAll doc (Some (entryKey xe)) sels)"
  shows "keeps (entryKey y) xe"
proof -
  from y have yw: "y \<in> set (walkDoc doc)" and ins: "inside (entryKey xe) y"
    by (auto simp: selectAll_def selects_def inScope_def inside_def)
  from inside_asym [OF wf yw xe ins] show ?thesis by (auto simp: keeps_def)
qed

lemma remove_two:
  assumes wf: "wfDoc doc" and el: "getElementById doc i = Some el"
    and p: "p \<in> set (selectAll doc (Some el) sels)" and q: "q \<in> set (selectAll doc (Some el) sels)"
  shows "getElementById (removeNode (entryKey p) (removeNode (entryKey q) doc)) i = Some el"
    and "querySelectorAll (removeNode (entryKey p) (removeNode (entryKey q) doc)) (Some el) sels =
         map entryKey (filter (\<lambda>x. keeps (entryKey p) x \<and> keeps (entryKey q) x) (selectAll doc (Some el) sels))"
proof -
  from getElementById_entry [OF el] obtain xe where
    fe: "find (\<lambda>x. getAttribute (fst (snd x)) ''id'' = Some i) (walkDoc doc) = Some xe"
    and ke: "entryKey xe = el" and xw: "xe \<in> set (walkDoc doc)" by blast
  have kp: "keeps (entryKey p) xe" using scope_keeps [OF wf xw] p ke by simp
  have kq: "keeps (entryKey q) xe" using scope_keeps [OF wf xw] q ke by simp
  have "find (\<lambda>x. keeps (entryKey q) x \<and> keeps (entryKey p) x \<and> getAttribute (fst (snd x)) ''id'' = Some i)
      (walkDoc doc) = Some xe"
    using find_conj_Some [OF fe, of "\<lambda>x. keeps (entryKey q) x \<and> keeps (entryKey p) x"] kp kq
    by (simp add: conj_assoc)
  then show "getElementById (removeNode (entryKey p) (removeNode (entryKey q) doc)) i = Some el"
    using ke
    by (simp add: getElementById_removeNode walkDoc_removeNode find_map_entry find_filter_entry)
  have "filter (keeps (entryKey p)) (filter (keeps (entryKey q)) (selectAll doc (Some el) sels)) =
      filter (\<lambda>x. keeps (entryKey p) x \<and> keeps (entryKey q) x) (selectAll doc (Some el) sels)"
    by (simp add: conj_commute)
  then show "querySelectorAll (removeNode (entryKey p) (removeNode (entryKey q) doc)) (Some el) sels =
      map entryKey (filter (\<lambda>x. keeps (entryKey p) x \<and> keeps (entryKey q) x) (selectAll doc (Some el) sels))"
    by (simp add: querySelectorAll_removeNode selectAll_removeNode filter_map comp_def)
qed

lemma reduceBranch_skip: "requestFieldId tg = None \<Longrightarrow> reduceBranch tg gd doc = None"
  by (auto simp: requestFieldId_def reduceBranch_def split: option.splits if_splits)

lemma choiceEntries_Cons:
  "choiceEntries doc i = x # xs \<Longrightarrow>
   \<exists>el. getElementById doc i = Some el \<and> selectAll doc (Some el) [Compound [Class ''form-radio-item'']] = x # xs"
  by (auto simp: choiceEntries_def split: option.splits)

lemma reduceBranch_absent:
  assumes rf: "requestFieldId tg = Some i" and ce: "choiceEntries doc i = xa # xb # rest"
    and len: "2 \<le> length rest"
  shows "reduceBranch tg None doc = Some (removeNode (entryKey xa) (removeNode (entryKey xb) doc))"
proof -
  from choiceEntries_Cons [OF ce] obtain el where
    el: "getElementById doc i = Some el"
    and sa: "selectAll doc (Some el) [Compound [Class ''form-radio-item'']] = xa # xb # rest" by blast
  have q: "querySelectorAll doc (Some el) [Compound [Class ''form-radio-item'']] =
      entryKey xa # entryKey xb # map entryKey rest"
    by (simp add: querySelectorAll_def sa)
  show ?thesis using rf el q len
    by (auto simp: requestFieldId_def reduceBranch_def Let_def split: option.splits if_splits)
qed

lemma reduceBranch_present:
  assumes rf: "requestFieldId tg = Some i" and ce: "choiceEntries doc i = xa # xb # xc # xd # rest"
  shows "reduceBranch tg (Some gd) doc = Some (removeNode (entryKey xc) (removeNode (entryKey xd) doc))"
proof -
  from choiceEntries_Cons [OF ce] obtain el where
    el: "getElementById doc i = Some el"
    and sa: "selectAll doc (Some el) [Compound [Class ''form-radio-item'']] = xa # xb # xc # xd # rest" by blast
  have q: "querySelectorAll doc (Some el) [Compound [Class ''form-radio-item'']] =
      entryKey xa # entryKey xb # entryKey xc # entryKey xd # map entryKey rest"
    by (simp add: querySelectorAll_def sa)
  show ?thesis using rf el q
    by (auto simp: requestFieldId_def reduceBranch_def Let_def split: option.splits if_splits)
qed

lemma reduceBranch_few:
  assumes rf: "requestFieldId tg = Some i" and len: "length (choiceEntries doc i) < 4"
  shows "reduceBranch tg gd doc = Some doc"
  using rf len
  by (auto simp: requestFieldId_def reduceBranch_def choiceEntries_def querySelectorAll_def Let_def
      split: option.splits if_splits)

lemma choiceItems_absent:
  assumes wf: "wfDoc doc" and ce: "choiceEntries doc i = xa # xb # rest"
  shows "choiceItems (removeNode (entryKey xa) (removeNode (entryKey xb) doc)) i =
     map entryKey (filter (\<lambda>x. \<not> inside (entryKey xa) x \<and> \<not> inside (entryKey xb) x) rest)"
proof -
  let ?sel = "[Compound [Class ''form-radio-item'']]"
  from choiceEntries_Cons [OF ce] obtain el where
    el: "getElementById doc i = Some el" and sa: "selectAll doc (Some el) ?sel = xa # xb # rest" by blast
  have fa: "filter (selects (Some el) ?sel) (walkDoc doc) = [] @ xa # (xb # rest)"
    using sa by (simp add: selectAll_def)
  have fb: "filter (selects (Some el) ?sel) (walkDoc doc) = [xa] @ xb # rest"
    using sa by (simp add: selectAll_def)
  have ka: "\<And>y. y \<in> set rest \<Longrightarrow> entryKey y \<noteq> entryKey xa"
    using later_not_around [OF wf fa] by simp
  have kb: "\<And>y. y \<in> set rest \<Longrightarrow> entryKey y \<noteq> entryKey xb"
    using later_not_around [OF wf fb] by simp
  have "filter (\<lambda>x. keeps (entryKey xa) x \<and> keeps (entryKey xb) x) (xa # xb # rest) =
      filter (\<lambda>x. keeps (entryKey xa) x \<and> keeps (entryKey xb) x) rest"
    by (simp add: keeps_def)
  also have "\<dots> = filter (\<lambda>x. \<not> inside (entryKey xa) x \<and> \<not> inside (entryKey xb) x) rest"
    using ka kb by (intro filter_cong) (auto simp: keeps_def)
  finally have fl: "filter (\<lambda>x. keeps (entryKey xa) x \<and> keeps (entryKey xb) x) (xa # xb # rest) =
      filter (\<lambda>x. \<not> inside (entryKey xa) x \<and> \<not> inside (entryKey xb) x) rest" .
  have pa: "xa \<in> set (selectAll doc (Some el) ?sel)" and pb: "xb \<in> set (selectAll doc (Some el) ?sel)"
    using sa by simp_all
  from remove_two [OF wf el pa pb] fl sa show ?thesis
    by (simp add: choiceItems_def choiceEntries_def querySelectorAll_def [symmetric])
qed

lemma choiceItems_present:
  assumes wf: "wfDoc doc" and ce: "choiceEntries doc i = [xa, xb, xc, xd]"
  shows "choiceItems (removeNode (entryKey xc) (removeNode (entryKey xd) doc)) i = [entryKey xa, entryKey xb]"
proof -
  let ?sel = "[Compound [Class ''form-radio-item'']]"
  from choiceEntries_Cons [OF ce] obtain el where
    el: "getElementById doc i = Some el" and sa: "selectAll doc (Some el) ?sel = [xa, xb, xc, xd]" by blast
  have fa: "filter (selects (Some el) ?sel) (walkDoc doc) = [] @ xa # [xb, xc, xd]"
    using sa by (simp add: selectAll_def)
  have fb: "filter (selects (Some el) ?sel) (walkDoc doc) = [xa] @ xb # [xc, xd]"
    using sa by (simp add: selectAll_def)
  have a: "keeps (entryKey xc) xa" "keeps (entryKey xd) xa"
    using later_not_around [OF wf fa, of xc] later_not_around [OF wf fa, of xd]
    by (auto simp: keeps_def)
  have b: "keeps (entryKey xc) xb" "keeps (entryKey xd) xb"
    using later_not_around [OF wf fb, of xc] later_not_around [OF wf fb, of xd]
    by (auto simp: keeps_def)
  have fl: "filter (\<lambda>x. keeps (entryKey xc) x \<and> keeps (entryKey xd) x) [xa, xb, xc, xd] = [xa, xb]"
    using a b by (simp add: keeps_def)
  have pc: "xc \<in> set (selectAll doc (Some el) ?sel)" and pd: "xd \<in> set (selectAll doc (Some el) ?sel)"
    using sa by simp_all
  from remove_two [OF wf el pc pd] fl sa show ?thesis
    by (simp add: choiceItems_def choiceEntries_def querySelectorAll_def [symmetric])
qed

text \<open>
  C2. In a document whose elements are distinct objects, take a group whose
  request-content field exists and has exactly four choice items \<open>xa\<close>, \<open>xb\<close>,
  \<open>xc\<close>, \<open>xd\<close>, in document order. With a payload entry, the items at indices 3 and 2
  are removed, index 3 first, and the items at indices 0 and 1 remain, in this order.
  Without one, the items at indices 1 and 0 are removed, index 1 first, and the items at
  indices 2 and 3 remain, in this order, when they lie inside neither of the removed
  items: so for the radio items of the form's markup, which are siblings. A removal
  takes all that lies inside the item, so in general those of the items at indices 2 and
  3 remain that lie inside neither removed item.
\<close>

theorem C2_branch_removal:
  assumes wf: "wfDoc doc" and rf: "requestFieldId tg = Some i"
    and ce: "choiceEntries doc i = [xa, xb, xc, xd]"
  shows "reduceBranch tg (Some gd) doc = Some (removeNode (entryKey xc) (removeNode (entryKey xd) doc)) \<and>
         choicesAfter tg (Some gd) doc i = Some [entryKey xa, entryKey xb] \<and>
         reduceBranch tg None doc = Some (removeNode (entryKey xa) (removeNode (entryKey xb) doc)) \<and>
         choicesAfter tg None doc i =
           Some (map entryKey (filter (\<lambda>x. \<not> inside (entryKey xa) x \<and> \<not> inside (entryKey xb) x) [xc, xd])) \<and>
         (\<not> inside (entryKey xa) xc \<and> \<not> inside (entryKey xb) xc \<and>
          \<not> inside (entryKey xa) xd \<and> \<not> inside (entryKey xb) xd \<longrightarrow>
            choicesAfter tg None doc i = Some [entryKey xc, entryKey xd])"
proof -
  have p: "reduceBranch tg (Some gd) doc = Some (removeNode (entryKey xc) (removeNode (entryKey xd) doc))"
    using reduceBranch_present [OF rf, of doc xa xb xc xd "[]" gd] ce by simp
  have a: "reduceBranch tg None doc = Some (removeNode (entryKey xa) (removeNode (entryKey xb) doc))"
    using reduceBranch_absent [OF rf, of doc xa xb "[xc, xd]"] ce by simp
  have pc: "choicesAfter tg (Some gd) doc i = Some [entryKey xa, entryKey xb]"
    using p choiceItems_present [OF wf ce] by (simp add: choicesAfter_def)
  have ac: "choicesAfter tg None doc i =
      Some (map entryKey (filter (\<lambda>x. \<not> inside (entryKey xa) x \<and> \<not> inside (entryKey xb) x) [xc, xd]))"
    using a choiceItems_absent [OF wf ce] by (simp add: choicesAfter_def)
  from p a pc ac show ?thesis by simp
qed

lemmas dom_defs = walkDoc_def mkElem_def radioItem_def ascii_def requestContent_def
  entryKey_def ancestorKeys_def getAttribute_def classList_def isAsciiSpace_def
  matchCompound_def inScope_def selects_def selectAll_def querySelectorAll_def
  selectFirst_def querySelector_def getElementById_def removeNode_def
  setValue_def setChecked_def setTextContent_def wfDoc_def inside_def

lemmas app_defs = requestFieldId_def choiceEntries_def choiceItems_def choicesAfter_def
  reduceBranch_def mkField_def formGroup_def

lemma formDoc_wf: "wfDoc formDoc"
  by (simp add: formDoc_def dom_defs)

lemma formGroup_request: "requestFieldId formGroup = Some (ascii ''id_11'')"
  by (simp add: app_defs dom_defs)

lemma formDoc_choices:
  "choiceEntries formDoc (ascii ''id_11'') =
     [formItem 22 ''a'', formItem 24 ''b'', formItem 26 ''c'', formItem 28 ''d'']"
  by (simp add: formItem_def formDoc_def app_defs dom_defs)

lemma formItem_key: "entryKey (formItem k v) = k"
  by (simp add: formItem_def dom_defs)

lemma formItem_inside: "inside j (formItem k v) \<longleftrightarrow> j = 20 \<or> j = 1"
  by (auto simp: formItem_def dom_defs)

theorem C2_branch_removal_witness:
  "wfDoc formDoc \<and> requestFieldId formGroup = Some (ascii ''id_11'') \<and>
   choiceItems formDoc (ascii ''id_11'') = [22, 24, 26, 28] \<and>
   choicesAfter formGroup (Some emptyEntry) formDoc (ascii ''id_11'') = Some [22, 24] \<and>
   choicesAfter formGroup None formDoc (ascii ''id_11'') = Some [26, 28]"
proof -
  have ci: "choiceItems formDoc (ascii ''id_11'') = [22, 24, 26, 28]"
    by (simp add: choiceItems_def formDoc_choices formItem_key)
  from C2_branch_removal [OF formDoc_wf formGroup_request formDoc_choices, of emptyEntry]
  show ?thesis using formDoc_wf formGroup_request ci
    by (simp add: formItem_key formItem_inside)
qed

text \<open>
  Choice items inside one another are not the markup of the form. There the removal of
  the first item takes the items inside it along.
\<close>

lemma nested_choice_items:
  "wfDoc nestedDoc \<and> requestFieldId formGroup = Some (ascii ''id_11'') \<and>
   choiceItems nestedDoc (ascii ''id_11'') = [22, 24, 26, 28] \<and>
   choicesAfter formGroup None nestedDoc (ascii ''id_11'') = Some []"
  by (simp add: nestedDoc_def app_defs dom_defs)

theorem C7_counterexample:
  "wfDoc fiveDoc \<and> requestFieldId formGroup = Some (ascii ''id_11'') \<and>
   choiceItems fiveDoc (ascii ''id_11'') = [22, 24, 26, 28, 30] \<and>
   applyDataToForm strictBrowser [formGroup] None fiveDoc =
     Done (removeNode 22 (removeNode 24 fiveDoc)) \<and>
   choiceItems (removeNode 22 (removeNode 24 fiveDoc)) (ascii ''id_11'') = [26, 28, 30]"
  by (simp add: fiveDoc_def applyDataToForm_def processGroup_def app_defs dom_defs)

lemma elemsOf_removeNode: "elemsOf (removeNode k doc) \<subseteq> elemsOf doc"
  by (auto simp: elemsOf_def walkDoc_removeNode)

lemma texts_prune: "set (concat (map (textsIn p) (prune k n))) \<subseteq> set (textsIn p n)"
proof (induction n arbitrary: p)
  case (Text s)
  show ?case by simp
next
  case (Element e ks)
  show ?case
  proof (cases "key e = k")
    case True
    then show ?thesis by simp
  next
    case False
    have "set (concat (map (textsIn (Some (key e))) (concat (map (prune k) ks)))) \<subseteq>
        set (concat (map (textsIn (Some (key e))) ks))"
    proof
      fix t assume "t \<in> set (concat (map (textsIn (Some (key e))) (concat (map (prune k) ks))))"
      then obtain c where c: "c \<in> set ks" and
        t: "t \<in> set (concat (map (textsIn (Some (key e))) (prune k c)))" by auto
      from Element.IH [OF c] t have "t \<in> set (textsIn (Some (key e)) c)" by blast
      with c show "t \<in> set (concat (map (textsIn (Some (key e))) ks))" by auto
    qed
    with False show ?thesis by simp
  qed
qed

lemma textsOf_removeNode: "textsOf (removeNode k doc) \<subseteq> textsOf doc"
proof
  fix t assume "t \<in> textsOf (removeNode k doc)"
  then obtain n where n: "n \<in> set doc" and t: "t \<in> set (concat (map (textsIn None) (prune k n)))"
    by (auto simp: textsOf_def removeNode_def)
  from texts_prune [of None k n] t have "t \<in> set (textsIn None n)" by blast
  with n show "t \<in> textsOf doc" by (auto simp: textsOf_def)
qed

lemma texts_setProp: "frameProp f \<Longrightarrow> textsIn p (setProp k f n) = textsIn p n"
proof (induction n arbitrary: p)
  case (Text s)
  show ?case by simp
next
  case (Element e ks)
  have "key (if key e = k then f e else e) = key e"
    using Element.prems by (simp add: frameProp_def)
  moreover have "\<And>c q. c \<in> set ks \<Longrightarrow> textsIn q (setProp k f c) = textsIn q c"
    using Element by blast
  ultimately show ?case by (simp cong: map_cong)
qed

lemma textsOf_setProp: "frameProp f \<Longrightarrow> textsOf (map (setProp k f) doc) = textsOf doc"
  by (simp add: textsOf_def texts_setProp comp_def)

lemma textsOf_setValue [simp]: "textsOf (setValue k v doc) = textsOf doc"
  by (simp add: setValue_def textsOf_setProp)

lemma textsOf_setChecked [simp]: "textsOf (setChecked k doc) = textsOf doc"
  by (simp add: setChecked_def textsOf_setProp)

lemma textsOf_setValueOf [simp]: "textsOf (setValueOf el v doc) = textsOf doc"
  by (cases el) (simp_all add: setValueOf_def)

lemma wfDoc_removeNode: "wfDoc doc \<Longrightarrow> wfDoc (removeNode k doc)"
  by (simp add: wfDoc_def walkDoc_removeNode comp_def distinct_map_filter)

lemma reduceBranch_cases:
  "reduceBranch tg gd doc = Some d \<Longrightarrow> d = doc \<or> (\<exists>k1 k2. d = removeNode k1 (removeNode k2 doc))"
  by (auto simp: reduceBranch_def Let_def split: option.splits if_splits)

lemma nullStep_cases:
  "nullStep doc tg = doc \<or> (\<exists>k1 k2. nullStep doc tg = removeNode k1 (removeNode k2 doc))"
  using reduceBranch_cases [of tg None doc]
  by (auto simp: nullStep_def split: option.splits)

lemma nullStep_frame:
  "elemsOf (nullStep doc tg) \<subseteq> elemsOf doc \<and> textsOf (nullStep doc tg) \<subseteq> textsOf doc \<and>
   (wfDoc doc \<longrightarrow> wfDoc (nullStep doc tg))"
proof -
  have e: "\<And>k1 k2. elemsOf (removeNode k1 (removeNode k2 doc)) \<subseteq> elemsOf doc"
    using elemsOf_removeNode by blast
  have t: "\<And>k1 k2. textsOf (removeNode k1 (removeNode k2 doc)) \<subseteq> textsOf doc"
    using textsOf_removeNode by blast
  have w: "\<And>k1 k2. wfDoc doc \<Longrightarrow> wfDoc (removeNode k1 (removeNode k2 doc))"
    by (simp add: wfDoc_removeNode)
  from nullStep_cases [of doc tg] show ?thesis
  proof
    assume "nullStep doc tg = doc"
    then show ?thesis by simp
  next
    assume "\<exists>k1 k2. nullStep doc tg = removeNode k1 (removeNode k2 doc)"
    then obtain k1 k2 where "nullStep doc tg = removeNode k1 (removeNode k2 doc)" by blast
    then show ?thesis using e [of k1 k2] t [of k1 k2] w [of k1 k2] by simp
  qed
qed

lemma foldl_nullStep_frame:
  "elemsOf (foldl nullStep doc gs) \<subseteq> elemsOf doc \<and> textsOf (foldl nullStep doc gs) \<subseteq> textsOf doc \<and>
   (wfDoc doc \<longrightarrow> wfDoc (foldl nullStep doc gs))"
proof (induction gs arbitrary: doc)
  case Nil
  show ?case by simp
next
  case (Cons g gs)
  from Cons.IH [of "nullStep doc g"] nullStep_frame [of doc g] show ?case by auto
qed

lemma processGroup_None: "processGroup b tg None doc = Done (nullStep doc tg)"
  by (simp add: processGroup_def nullStep_def split: option.splits)

lemma forEachGroup_None:
  "forEachGroup b (\<lambda>index. None) n gs doc = Done (foldl nullStep doc gs)"
  by (induction gs arbitrary: n doc) (simp_all add: processGroup_None)

lemma applyDataToForm_None:
  "applyDataToForm b gs None doc = Done (foldl nullStep doc gs)"
  by (simp add: applyDataToForm_def forEachGroup_None)

lemma applyDataToFormPrefill_None:
  "applyDataToFormPrefill b gs None doc = Done (foldl nullStep doc gs)"
  by (simp add: applyDataToFormPrefill_def applyTopLevel_def forEachGroup_None)

text \<open>
  C7 as amended. With no payload, both versions of \<open>applyDataToForm\<close> end normally,
  and the document that results is the one reached by the branch reduction of each group
  in turn. This run only removes: every element of the result is an element of the input
  with the same properties, and every text node of the result is a text node of the
  input under the same parent, so no header text is overwritten and no value written.
  For a group that is reached in a document \<open>d\<close> with distinct elements and whose
  request-content field has the choice items \<open>xa\<close>, \<open>xb\<close> and at least two more, the
  items \<open>xb\<close> and \<open>xa\<close> are removed, and the choice items left are all the others
  that lie inside neither of the two: the last two when there were four siblings, the
  last three when there were five. A group without request-content field, or with
  fewer than four choice items, is left as it is.
\<close>

theorem C7_null_payload:
  "applyDataToForm b gs None doc = Done (foldl nullStep doc gs) \<and>
   applyDataToFormPrefill b gs None doc = Done (foldl nullStep doc gs) \<and>
   elemsOf (foldl nullStep doc gs) \<subseteq> elemsOf doc \<and>
   textsOf (foldl nullStep doc gs) \<subseteq> textsOf doc \<and>
   (wfDoc doc \<longrightarrow> wfDoc (foldl nullStep doc gs)) \<and>
   (wfDoc d \<and> requestFieldId tg = Some i \<and> choiceEntries d i = xa # xb # rest \<and> 2 \<le> length rest \<longrightarrow>
      nullStep d tg = removeNode (entryKey xa) (removeNode (entryKey xb) d) \<and>
      choiceItems (nullStep d tg) i =
        map entryKey (filter (\<lambda>x. \<not> inside (entryKey xa) x \<and> \<not> inside (entryKey xb) x) rest)) \<and>
   (requestFieldId tg = None \<or> (\<exists>i. requestFieldId tg = Some i \<and> length (choiceEntries d i) < 4) \<longrightarrow>
      nullStep d tg = d)"
proof -
  have step: "wfDoc d \<and> requestFieldId tg = Some i \<and> choiceEntries d i = xa # xb # rest \<and> 2 \<le> length rest \<longrightarrow>
      nullStep d tg = removeNode (entryKey xa) (removeNode (entryKey xb) d) \<and>
      choiceItems (nullStep d tg) i =
        map entryKey (filter (\<lambda>x. \<not> inside (entryKey xa) x \<and> \<not> inside (entryKey xb) x) rest)"
  proof (intro impI, elim conjE)
    assume wf: "wfDoc d" and rf: "requestFieldId tg = Some i"
      and ce: "choiceEntries d i = xa # xb # rest" and len: "2 \<le> length rest"
    have "nullStep d tg = removeNode (entryKey xa) (removeNode (entryKey xb) d)"
      using reduceBranch_absent [OF rf ce len] by (simp add: nullStep_def)
    then show "nullStep d tg = removeNode (entryKey xa) (removeNode (entryKey xb) d) \<and>
      choiceItems (nullStep d tg) i =
        map entryKey (filter (\<lambda>x. \<not> inside (entryKey xa) x \<and> \<not> inside (entryKey xb) x) rest)"
      using choiceItems_absent [OF wf ce] by simp
  qed
  have skip: "requestFieldId tg = None \<or> (\<exists>i. requestFieldId tg = Some i \<and> length (choiceEntries d i) < 4) \<longrightarrow>
      nullStep d tg = d"
    using reduceBranch_skip [of tg None d] reduceBranch_few [of tg _ d None]
    by (auto simp: nullStep_def)
  have run: "applyDataToForm b gs None doc = Done (foldl nullStep doc gs) \<and>
      applyDataToFormPrefill b gs None doc = Done (foldl nullStep doc gs)"
    by (simp add: applyDataToForm_None applyDataToFormPrefill_None)
  from run foldl_nullStep_frame [of doc gs] step skip show ?thesis by blast
qed

theorem C7_null_payload_witness:
  "wfDoc formDoc \<and> requestFieldId formGroup = Some (ascii ''id_11'') \<and>
   choiceItems formDoc (ascii ''id_11'') = [22, 24, 26, 28] \<and>
   applyDataToForm strictBrowser [formGroup] None formDoc = Done (nullStep formDoc formGroup) \<and>
   nullStep formDoc formGroup = removeNode 22 (removeNode 24 formDoc) \<and>
   choiceItems (nullStep formDoc formGroup) (ascii ''id_11'') = [26, 28] \<and>
   textsOf (nullStep formDoc formGroup) \<subseteq> textsOf formDoc \<and>
   elemsOf (nullStep formDoc formGroup) \<subseteq> elemsOf formDoc"
proof -
  have ce: "choiceEntries formDoc (ascii ''id_11'') =
      formItem 22 ''a'' # formItem 24 ''b'' # [formItem 26 ''c'', formItem 28 ''d'']"
    by (simp add: formDoc_choices)
  have len: "2 \<le> length [formItem 26 ''c'', formItem 28 ''d'']" by simp
  have ci: "choiceItems formDoc (ascii ''id_11'') = [22, 24, 26, 28]"
    by (simp add: choiceItems_def formDoc_choices formItem_key)
  note T = C7_null_payload [of strictBrowser "[formGroup]" formDoc formDoc formGroup "ascii ''id_11''"
      "formItem 22 ''a''" "formItem 24 ''b''" "[formItem 26 ''c'', formItem 28 ''d'']"]
  from T formDoc_wf formGroup_request ce len
  have st: "nullStep formDoc formGroup =
        removeNode (entryKey (formItem 22 ''a'')) (removeNode (entryKey (formItem 24 ''b'')) formDoc) \<and>
      choiceItems (nullStep formDoc formGroup) (ascii ''id_11'') =
        map entryKey (filter (\<lambda>x. \<not> inside (entryKey (formItem 22 ''a'')) x \<and>
          \<not> inside (entryKey (formItem 24 ''b'')) x) [formItem 26 ''c'', formItem 28 ''d''])"
    by blast
  from T have fr: "applyDataToForm strictBrowser [formGroup] None formDoc =
        Done (foldl nullStep formDoc [formGroup]) \<and>
      elemsOf (foldl nullStep formDoc [formGroup]) \<subseteq> elemsOf formDoc \<and>
      textsOf (foldl nullStep formDoc [formGroup]) \<subseteq> textsOf formDoc"
    by blast
  from st have st1: "nullStep formDoc formGroup = removeNode 22 (removeNode 24 formDoc)"
    by (simp add: formItem_key)
  from st have "choiceItems (nullStep formDoc formGroup) (ascii ''id_11'') =
      map entryKey (filter (\<lambda>x. \<not> inside (entryKey (formItem 22 ''a'')) x \<and>
        \<not> inside (entryKey (formItem 24 ''b'')) x) [formItem 26 ''c'', formItem 28 ''d''])"
    by (rule conjunct2)
  then have st2: "choiceItems (nullStep formDoc formGroup) (ascii ''id_11'') = [26, 28]"
    by (simp add: formItem_key formItem_inside)
  note st' = st1 st2
  from fr have fr': "applyDataToForm strictBrowser [formGroup] None formDoc = Done (nullStep formDoc formGroup)"
      "elemsOf (nullStep formDoc formGroup) \<subseteq> elemsOf formDoc"
      "textsOf (nullStep formDoc formGroup) \<subseteq> textsOf formDoc"
    by simp_all
  show ?thesis
    by (intro conjI formDoc_wf formGroup_request ci st' fr')
qed

lemma shapesOf_removeNode: "shapesOf (removeNode k doc) \<subseteq> shapesOf doc"
  by (auto simp: shapesOf_def walkDoc_removeNode)

lemma shapesOf_setProp: "frameProp f \<Longrightarrow> shapesOf (map (setProp k f) doc) = shapesOf doc"
proof -
  assume fp: "frameProp f"
  have "\<And>x. attrs (fst (snd (updEntry k f x))) = attrs (fst (snd x))"
    "\<And>x. localName (fst (snd (updEntry k f x))) = localName (fst (snd x))"
    using fp by (simp_all add: updEntry_def upd_def frameProp_def)
  then show ?thesis by (simp add: shapesOf_def walkDoc_setProp comp_def)
qed

lemma shapesOf_setValue [simp]: "shapesOf (setValue k v doc) = shapesOf doc"
  by (simp add: setValue_def shapesOf_setProp)

lemma shapesOf_setChecked [simp]: "shapesOf (setChecked k doc) = shapesOf doc"
  by (simp add: setChecked_def shapesOf_setProp)

lemma shapesOf_setValueOf [simp]: "shapesOf (setValueOf el v doc) = shapesOf doc"
  by (cases el) (simp_all add: setValueOf_def)

lemma shapesOf_setTextContent: "shapesOf (setTextContent k s doc) \<subseteq> shapesOf doc"
  by (auto simp: shapesOf_def walkDoc_setTextContent)

lemma shapesOf_reduceBranch: "reduceBranch tg gd doc = Some d \<Longrightarrow> shapesOf d \<subseteq> shapesOf doc"
proof -
  assume "reduceBranch tg gd doc = Some d"
  then consider "d = doc" | k1 k2 where "d = removeNode k1 (removeNode k2 doc)"
    using reduceBranch_cases by blast
  then show ?thesis
  proof cases
    case 1
    then show ?thesis by simp
  next
    case 2
    have "shapesOf (removeNode k1 (removeNode k2 doc)) \<subseteq> shapesOf (removeNode k2 doc)"
      by (rule shapesOf_removeNode)
    also have "\<dots> \<subseteq> shapesOf doc" by (rule shapesOf_removeNode)
    finally show ?thesis using 2 by simp
  qed
qed

lemma textsOf_reduceBranch: "reduceBranch tg gd doc = Some d \<Longrightarrow> textsOf d \<subseteq> textsOf doc"
proof -
  assume "reduceBranch tg gd doc = Some d"
  then consider "d = doc" | k1 k2 where "d = removeNode k1 (removeNode k2 doc)"
    using reduceBranch_cases by blast
  then show ?thesis
  proof cases
    case 1
    then show ?thesis by simp
  next
    case 2
    have "textsOf (removeNode k1 (removeNode k2 doc)) \<subseteq> textsOf (removeNode k2 doc)"
      by (rule textsOf_removeNode)
    also have "\<dots> \<subseteq> textsOf doc" by (rule textsOf_removeNode)
    finally show ?thesis using 2 by simp
  qed
qed

subsection \<open>The field loop writes properties only\<close>

lemma applyDateValue_frame [simp]:
  "textsOf (applyDateValue fe v doc) = textsOf doc" "shapesOf (applyDateValue fe v doc) = shapesOf doc"
  by (simp_all add: applyDateValue_def Let_def)

lemma applyGenericValue_frame:
  "textsOf (finalDoc (applyGenericValue b fe v doc)) = textsOf doc \<and>
   shapesOf (finalDoc (applyGenericValue b fe v doc)) = shapesOf doc"
  by (simp add: applyGenericValue_def Let_def split: option.splits sum.splits list.splits)

lemma applyField_frame:
  "textsOf (finalDoc (applyField b tg k v doc)) = textsOf doc \<and>
   shapesOf (finalDoc (applyField b tg k v doc)) = shapesOf doc"
  by (simp add: applyField_def Let_def applyGenericValue_frame split: option.splits)

lemma finalDoc_Done: "f = Done d \<Longrightarrow> finalDoc f = d"
  by simp

lemma applyFields_frame:
  "textsOf (finalDoc (applyFields b tg kvs doc)) = textsOf doc \<and>
   shapesOf (finalDoc (applyFields b tg kvs doc)) = shapesOf doc"
proof (induction kvs arbitrary: doc)
  case Nil
  show ?case by simp
next
  case (Cons kv kvs)
  obtain k v where kv: "kv = (k, v)" by (cases kv)
  show ?case
  proof (cases "applyField b tg k v doc")
    case (Done d)
    then have "textsOf d = textsOf doc \<and> shapesOf d = shapesOf doc"
      using applyField_frame [of b tg k v doc] by simp
    with Cons.IH [of d] Done kv show ?thesis by simp
  next
    case (Raised e d)
    then have "textsOf d = textsOf doc \<and> shapesOf d = shapesOf doc"
      using applyField_frame [of b tg k v doc] by simp
    with Raised kv show ?thesis by simp
  qed
qed

subsection \<open>The header override\<close>

lemma overrideHeader_empty: "headerText gd = [] \<Longrightarrow> finalDoc (overrideHeader b tg gd doc) = doc"
  by (simp add: overrideHeader_def split: option.splits sum.splits)

lemma overrideHeader_changes:
  "finalDoc (overrideHeader b tg gd doc) \<noteq> doc \<Longrightarrow>
   headerText gd \<noteq> [] \<and>
   (\<exists>hid h. id_f (collapseField tg) = Some hid \<and> hid \<noteq> [] \<and> queryHeader b hid doc = Inr (Some h) \<and>
      overrideHeader b tg gd doc = Done (setTextContent h (headerText gd) doc))"
  by (auto simp: overrideHeader_def split: option.splits sum.splits if_splits)

lemma overrideHeader_shapes: "shapesOf (finalDoc (overrideHeader b tg gd doc)) \<subseteq> shapesOf doc"
  using shapesOf_setTextContent
  by (auto simp: overrideHeader_def split: option.splits sum.splits if_splits)

lemma processGroup_empty_header:
  assumes "headerText gd = []"
  shows "textsOf (finalDoc (processGroup b tg (Some gd) doc)) \<subseteq> textsOf doc"
proof (cases "reduceBranch tg (Some gd) doc")
  case None
  then show ?thesis by (simp add: processGroup_def)
next
  case (Some d1)
  have t1: "textsOf d1 \<subseteq> textsOf doc" using Some by (rule textsOf_reduceBranch)
  have oh: "finalDoc (overrideHeader b tg gd d1) = d1" using assms by (rule overrideHeader_empty)
  show ?thesis
  proof (cases "overrideHeader b tg gd d1")
    case (Raised e d)
    with oh have "d = d1" by simp
    with Some Raised t1 show ?thesis by (simp add: processGroup_def)
  next
    case (Done d2)
    with oh have "d2 = d1" by simp
    with Some Done t1 applyFields_frame [of b tg "fields_q gd" d1] show ?thesis
      by (simp add: processGroup_def)
  qed
qed

text \<open>
  C9. A payload entry whose \<open>headerText\<close> is the empty string overrides no header: the
  header step leaves the document as it is, whatever the browser answers to the header
  selector, and the whole processing of the group writes no text at all. The header
  step changes the document only when \<open>headerText\<close> is not empty and the selector
  finds the header sub-element, whose text it then replaces.
\<close>

theorem C9_empty_header_text:
  "(headerText gd = [] \<longrightarrow>
      finalDoc (overrideHeader b tg gd doc) = doc \<and>
      textsOf (finalDoc (processGroup b tg (Some gd) doc)) \<subseteq> textsOf doc) \<and>
   (finalDoc (overrideHeader b tg gd doc) \<noteq> doc \<longrightarrow>
      headerText gd \<noteq> [] \<and>
      (\<exists>hid h. id_f (collapseField tg) = Some hid \<and> hid \<noteq> [] \<and>
         queryHeader b hid doc = Inr (Some h) \<and>
         overrideHeader b tg gd doc = Done (setTextContent h (headerText gd) doc)))"
  using overrideHeader_empty [of gd b tg doc] processGroup_empty_header [of gd b tg doc]
    overrideHeader_changes [of b tg gd doc]
  by blast

theorem C9_empty_header_text_witness:
  "headerText emptyEntry = [] \<and>
   finalDoc (overrideHeader strictBrowser formGroup emptyEntry formDoc) = formDoc \<and>
   textsOf (finalDoc (processGroup strictBrowser formGroup (Some emptyEntry) formDoc)) \<subseteq> textsOf formDoc \<and>
   finalDoc (overrideHeader strictBrowser formGroup changedEntry formDoc) \<noteq> formDoc \<and>
   headerText changedEntry \<noteq> [] \<and>
   queryHeader strictBrowser (ascii ''id_10'') formDoc = Inr (Some 11)"
proof -
  have e: "headerText emptyEntry = []" by (simp add: emptyEntry_def)
  have q: "queryHeader strictBrowser (ascii ''id_10'') formDoc = Inr (Some 11)"
    by (simp add: queryHeader_def formDoc_def isAsciiLetter_def isAsciiDigit_def isNameChar_def dom_defs)
  have c: "finalDoc (overrideHeader strictBrowser formGroup changedEntry formDoc) \<noteq> formDoc"
    by (simp add: overrideHeader_def q changedEntry_def formGroup_def mkField_def)
      (simp add: formDoc_def dom_defs)
  from C9_empty_header_text [of emptyEntry strictBrowser formGroup formDoc] e
  have "finalDoc (overrideHeader strictBrowser formGroup emptyEntry formDoc) = formDoc \<and>
      textsOf (finalDoc (processGroup strictBrowser formGroup (Some emptyEntry) formDoc)) \<subseteq> textsOf formDoc"
    by blast
  moreover from C9_empty_header_text [of changedEntry strictBrowser formGroup formDoc] c
  have "headerText changedEntry \<noteq> []" by blast
  ultimately show ?thesis using e q c by blast
qed

lemma forEachGroup_append:
  "forEachGroup b look n (gs1 @ gs2) doc =
     (case forEachGroup b look n gs1 doc of
        Done d \<Rightarrow> forEachGroup b look (n + length gs1) gs2 d
      | Raised e d \<Rightarrow> Raised e d)"
proof (induction gs1 arbitrary: n doc)
  case Nil
  show ?case by simp
next
  case (Cons g gs1)
  show ?case
  proof (cases "processGroup b g (look n) doc")
    case (Done d)
    then show ?thesis using Cons.IH [of "Suc n" d] by (simp split: outcome.splits)
  next
    case (Raised e d)
    then show ?thesis by simp
  qed
qed

lemma forEachGroup_raises:
  assumes "forEachGroup b look n gs1 doc = Done d1"
    and "processGroup b g (look (n + length gs1)) d1 = Raised e d2"
  shows "forEachGroup b look n (gs1 @ g # gs2) doc = Raised e d2"
  using assms by (simp add: forEachGroup_append)

lemma forEachGroup_raises0:
  assumes "forEachGroup b look 0 gs1 doc = Done d1"
    and "processGroup b g (look (length gs1)) d1 = Raised e d2"
  shows "forEachGroup b look 0 (gs1 @ g # gs2) doc = Raised e d2"
  using forEachGroup_raises [of b look 0 gs1 doc d1 g e d2 gs2] assms by simp

lemma safeElem_shape:
  "localName e = localName e' \<Longrightarrow> attrs e = attrs e' \<Longrightarrow> safeElem e = safeElem e'"
  by (simp add: safeElem_def nameOf_def isFileInput_def getAttribute_def)

lemma safeDoc_subset: "shapesOf d \<subseteq> shapesOf doc \<Longrightarrow> safeDoc doc \<Longrightarrow> safeDoc d"
proof -
  assume sub: "shapesOf d \<subseteq> shapesOf doc" and sd: "safeDoc doc"
  have "safeElem (fst (snd x))" if x: "x \<in> set (walkDoc d)" for x
  proof -
    from x have "(localName (fst (snd x)), attrs (fst (snd x))) \<in> shapesOf d"
      by (auto simp: shapesOf_def)
    with sub have "(localName (fst (snd x)), attrs (fst (snd x))) \<in> shapesOf doc" by blast
    then obtain y where y: "y \<in> set (walkDoc doc)" "localName (fst (snd y)) = localName (fst (snd x))"
      "attrs (fst (snd y)) = attrs (fst (snd x))" by (auto simp: shapesOf_def)
    from y(1) sd have "safeElem (fst (snd y))" by (simp add: safeDoc_def list_all_iff)
    with safeElem_shape [OF y(2) y(3)] show ?thesis by simp
  qed
  then show ?thesis by (simp add: safeDoc_def list_all_iff)
qed

lemma safeDoc_same: "shapesOf d = shapesOf doc \<Longrightarrow> safeDoc doc \<Longrightarrow> safeDoc d"
  by (rule safeDoc_subset) simp_all

lemma selectFirst_in: "selectFirst doc scope sels = Some x \<Longrightarrow> x \<in> set (walkDoc doc)"
  by (auto simp: selectFirst_def dest: find_Some_set)

lemma queryRadio_plain:
  "list_all isPlainChar nm \<Longrightarrow> list_all isPlainChar v \<Longrightarrow> \<exists>ks. queryRadio b nm v doc = Inr ks"
proof -
  assume "list_all isPlainChar nm" "list_all isPlainChar v"
  then have "find (\<lambda>c. \<not> isPlainChar c) (nm @ v) = None"
    by (auto simp: find_None_iff list_all_iff)
  then show ?thesis by (simp add: queryRadio_def)
qed

lemma applyGenericValue_safe:
  assumes sd: "safeDoc doc" and pv: "list_all isPlainChar v"
  shows "isDone (applyGenericValue b fe v doc)"
proof (cases "selectFirst doc (Some fe)
    [Compound [Type ''input''], Compound [Type ''select''], Compound [Type ''textarea'']]")
  case None
  then show ?thesis by (simp add: applyGenericValue_def)
next
  case (Some x)
  then have "x \<in> set (walkDoc doc)" by (rule selectFirst_in)
  then have se: "safeElem (fst (snd x))" using sd by (simp add: safeDoc_def list_all_iff)
  then have "list_all isPlainChar (nameOf (fst (snd x)))" by (simp add: safeElem_def)
  from queryRadio_plain [OF this pv] obtain ks where
    "queryRadio b (nameOf (fst (snd x))) v doc = Inr ks" by blast
  then show ?thesis using Some se
    by (simp add: applyGenericValue_def Let_def safeElem_def split: list.splits)
qed

lemma padTime_plain: "list_all isPlainChar v \<Longrightarrow> list_all isPlainChar (padTime nk v)"
  by (simp add: padTime_def ascii_def isPlainChar_def isNewline_def)

lemma applyField_safe:
  assumes sd: "safeDoc doc" and pv: "list_all isPlainChar v"
  shows "isDone (applyField b tg k v doc)"
  using applyGenericValue_safe [OF sd padTime_plain [OF pv]]
  by (simp add: applyField_def Let_def split: option.splits)

lemma applyFields_safe:
  "safeDoc doc \<Longrightarrow> list_all (\<lambda>kv. list_all isPlainChar (snd kv)) kvs \<Longrightarrow>
   isDone (applyFields b tg kvs doc) \<and> safeDoc (finalDoc (applyFields b tg kvs doc))"
proof (induction kvs arbitrary: doc)
  case Nil
  then show ?case by simp
next
  case (Cons kv kvs)
  obtain k v where kv: "kv = (k, v)" by (cases kv)
  have pv: "list_all isPlainChar v" using Cons.prems kv by simp
  have "isDone (applyField b tg k v doc)" using Cons.prems(1) pv by (rule applyField_safe)
  then obtain d where d: "applyField b tg k v doc = Done d" by (cases "applyField b tg k v doc") auto
  have "shapesOf d = shapesOf doc" using applyField_frame [of b tg k v doc] d by simp
  then have "safeDoc d" using Cons.prems(1) by (rule safeDoc_same)
  with Cons.IH [of d] Cons.prems(2) d kv show ?case by simp
qed

lemma overrideHeader_safe: "safeGroup tg \<Longrightarrow> isDone (overrideHeader b tg gd doc)"
  by (auto simp: safeGroup_def overrideHeader_def queryHeader_def split: option.splits)

lemma processGroup_safe:
  assumes sg: "safeGroup tg" and se: "\<And>gd. groupData = Some gd \<Longrightarrow> safeEntry gd" and sd: "safeDoc doc"
  shows "isDone (processGroup b tg groupData doc) \<and> safeDoc (finalDoc (processGroup b tg groupData doc))"
proof (cases "reduceBranch tg groupData doc")
  case None
  then show ?thesis using sd by (simp add: processGroup_def)
next
  case (Some d1)
  have s1: "safeDoc d1" using shapesOf_reduceBranch [OF Some] sd by (rule safeDoc_subset)
  show ?thesis
  proof (cases groupData)
    case None
    then show ?thesis using Some s1 by (simp add: processGroup_def)
  next
    case gd: (Some gd)
    have "isDone (overrideHeader b tg gd d1)" using sg by (rule overrideHeader_safe)
    then obtain d2 where d2: "overrideHeader b tg gd d1 = Done d2"
      by (cases "overrideHeader b tg gd d1") auto
    have "shapesOf d2 \<subseteq> shapesOf d1" using overrideHeader_shapes [of b tg gd d1] d2 by simp
    then have s2: "safeDoc d2" using s1 by (rule safeDoc_subset)
    have "list_all (\<lambda>kv. list_all isPlainChar (snd kv)) (fields_q gd)"
      using se [OF gd] by (simp add: safeEntry_def)
    from applyFields_safe [OF s2 this, of b tg] Some gd d2 show ?thesis
      by (simp add: processGroup_def)
  qed
qed

lemma forEachGroup_safe:
  assumes se: "\<And>i gd. look i = Some gd \<Longrightarrow> safeEntry gd"
  shows "list_all safeGroup gs \<Longrightarrow> safeDoc doc \<Longrightarrow> isDone (forEachGroup b look n gs doc)"
proof (induction gs arbitrary: n doc)
  case Nil
  show ?case by simp
next
  case (Cons g gs)
  have sg: "safeGroup g" using Cons.prems by simp
  from processGroup_safe [OF sg _ Cons.prems(2), of "look n" b] se
  have p: "isDone (processGroup b g (look n) doc) \<and> safeDoc (finalDoc (processGroup b g (look n) doc))"
    by blast
  then obtain d where d: "processGroup b g (look n) doc = Done d"
    by (cases "processGroup b g (look n) doc") auto
  with p have "safeDoc d" by simp
  with Cons.IH [of d "Suc n"] Cons.prems d show ?case by simp
qed

lemma at_safe: "list_all safeEntry qs \<Longrightarrow> at qs i = Some gd \<Longrightarrow> safeEntry gd"
  by (auto simp: at_def list_all_length split: if_splits)

lemma setTopLevel_cases:
  "setTopLevel tlv k i doc = Done doc \<or>
   (\<exists>x v. x \<in> set (walkDoc doc) \<and>
      setTopLevel tlv k i doc =
        (if isFileInput (fst (snd x)) then Raised InvalidStateError doc
         else Done (setValue (entryKey x) v doc)))"
proof (cases "map_of tlv k")
  case None
  then show ?thesis by (simp add: setTopLevel_def)
next
  case (Some v)
  show ?thesis
  proof (cases "v = []")
    case True
    then show ?thesis using Some by (simp add: setTopLevel_def)
  next
    case False
    show ?thesis
    proof (cases "find (\<lambda>x. getAttribute (fst (snd x)) ''id'' = Some (ascii i)) (walkDoc doc)")
      case None
      then show ?thesis using Some False by (simp add: setTopLevel_def)
    next
      case x: (Some x)
      then have "x \<in> set (walkDoc doc)" by (auto dest: find_Some_set)
      moreover have "setTopLevel tlv k i doc =
          (if isFileInput (fst (snd x)) then Raised InvalidStateError doc
           else Done (setValue (entryKey x) v doc))"
        by (simp add: setTopLevel_def Some False x)
      ultimately show ?thesis by blast
    qed
  qed
qed

lemma setTopLevel_safe:
  assumes sd: "safeDoc doc"
  shows "\<exists>d. setTopLevel tlv k i doc = Done d \<and> safeDoc d"
proof -
  from setTopLevel_cases [of tlv k i doc] show ?thesis
  proof
    assume "setTopLevel tlv k i doc = Done doc"
    with sd show ?thesis by simp
  next
    assume "\<exists>x v. x \<in> set (walkDoc doc) \<and>
      setTopLevel tlv k i doc =
        (if isFileInput (fst (snd x)) then Raised InvalidStateError doc
         else Done (setValue (entryKey x) v doc))"
    then obtain x v where x: "x \<in> set (walkDoc doc)" and
      r: "setTopLevel tlv k i doc =
        (if isFileInput (fst (snd x)) then Raised InvalidStateError doc
         else Done (setValue (entryKey x) v doc))" by blast
    from x sd have nf: "\<not> isFileInput (fst (snd x))" by (simp add: safeDoc_def list_all_iff safeElem_def)
    have "shapesOf (setValue (entryKey x) v doc) = shapesOf doc" by simp
    then have "safeDoc (setValue (entryKey x) v doc)" using sd by (rule safeDoc_same)
    with r nf show ?thesis by simp
  qed
qed

lemma andThen_safe:
  assumes r: "\<exists>d. r = Done d \<and> safeDoc d" and f: "\<And>d. safeDoc d \<Longrightarrow> \<exists>d'. f d = Done d' \<and> safeDoc d'"
  shows "\<exists>d. andThen r f = Done d \<and> safeDoc d"
proof -
  from r obtain d where d: "r = Done d" "safeDoc d" by blast
  from f [OF d(2)] show ?thesis by (simp add: d(1))
qed

lemma applyTopLevel_safe:
  assumes sd: "safeDoc doc"
  shows "\<exists>d. applyTopLevel p doc = Done d \<and> safeDoc d"
proof (cases p)
  case None
  then show ?thesis using sd by (simp add: applyTopLevel_def)
next
  case (Some pd)
  show ?thesis
  proof (cases "topLevel pd")
    case None
    then show ?thesis using Some sd by (simp add: applyTopLevel_def)
  next
    case tlv: (Some tlv)
    have a: "\<exists>d. setTopLevel tlv childFamilyNameKey ''first_195'' doc = Done d \<and> safeDoc d"
      using sd by (rule setTopLevel_safe)
    have b: "\<exists>d. andThen (setTopLevel tlv childFamilyNameKey ''first_195'' doc)
                     (setTopLevel tlv childGivenNameKey ''last_195'') = Done d \<and> safeDoc d"
      using a by (rule andThen_safe) (rule setTopLevel_safe)
    have c: "\<exists>d. andThen
                  (andThen (setTopLevel tlv childFamilyNameKey ''first_195'' doc)
                     (setTopLevel tlv childGivenNameKey ''last_195''))
                  (setTopLevel tlv guardianMailKey ''input_6'') = Done d \<and> safeDoc d"
      using b by (rule andThen_safe) (rule setTopLevel_safe)
    have "\<exists>d. andThen
               (andThen
                  (andThen (setTopLevel tlv childFamilyNameKey ''first_195'' doc)
                     (setTopLevel tlv childGivenNameKey ''last_195''))
                  (setTopLevel tlv guardianMailKey ''input_6''))
               (setTopLevel tlv targetMonthKey ''input_34'') = Done d \<and> safeDoc d"
      using c by (rule andThen_safe) (rule setTopLevel_safe)
    then show ?thesis using Some tlv by (simp add: applyTopLevel_def)
  qed
qed

lemma applyGenericValue_file:
  assumes "firstControl doc fe = Some x" "isFileInput (fst (snd x))" "v \<noteq> []"
  shows "applyGenericValue b fe v doc = Raised InvalidStateError doc"
proof -
  have "ascii ''input'' \<noteq> ascii ''select''" "ascii ''file'' \<noteq> ascii ''radio''"
    by (simp_all add: ascii_def)
  then show ?thesis using assms
    by (auto simp: applyGenericValue_def firstControl_def Let_def isFileInput_def isRadio_def)
qed

text \<open>
  C1 as amended. \<open>applyDataToForm\<close> has no exception handler. When the processing
  of a group raises, the exception leaves the loop: the call ends with that exception
  in the document as it was at that moment, whatever groups follow. Beside the two
  selectors built at run time, the write of a value raises when the first control of
  the matched field is a file input and the value is not empty. The call raises nothing
  when every header id is absent, empty or an ASCII identifier, the payload values and
  the \<open>name\<close> attributes of the document hold no quote, backslash, newline, NUL or
  surrogate, and the document has no file input.
\<close>

theorem C1_exceptions_propagate:
  "(applyDataToForm b gs1 q doc = Done d1 \<and>
    processGroup b g (case q of None \<Rightarrow> None | Some qs \<Rightarrow> at qs (length gs1)) d1 = Raised e d2 \<longrightarrow>
      applyDataToForm b (gs1 @ g # gs2) q doc = Raised e d2) \<and>
   (applyDataToFormPrefill b gs1 p doc = Done d1 \<and>
    processGroup b g (case p of None \<Rightarrow> None | Some pd \<Rightarrow> at (groups pd) (length gs1)) d1 = Raised e d2 \<longrightarrow>
      applyDataToFormPrefill b (gs1 @ g # gs2) p doc = Raised e d2) \<and>
   (firstControl doc fe = Some x \<and> isFileInput (fst (snd x)) \<and> v \<noteq> [] \<longrightarrow>
      applyGenericValue b fe v doc = Raised InvalidStateError doc) \<and>
   (list_all safeGroup gs \<and> safeDoc doc \<and>
    (case q of None \<Rightarrow> True | Some qs \<Rightarrow> list_all safeEntry qs) \<longrightarrow>
      isDone (applyDataToForm b gs q doc)) \<and>
   (list_all safeGroup gs \<and> safeDoc doc \<and>
    (case p of None \<Rightarrow> True | Some pd \<Rightarrow> list_all safeEntry (groups pd)) \<longrightarrow>
      isDone (applyDataToFormPrefill b gs p doc))"
proof (intro conjI impI)
  assume "applyDataToForm b gs1 q doc = Done d1 \<and>
    processGroup b g (case q of None \<Rightarrow> None | Some qs \<Rightarrow> at qs (length gs1)) d1 = Raised e d2"
  then show "applyDataToForm b (gs1 @ g # gs2) q doc = Raised e d2"
    unfolding applyDataToForm_def by (intro forEachGroup_raises0 [of _ _ _ _ d1]) simp_all
next
  let ?look = "\<lambda>index. case p of None \<Rightarrow> None | Some pd \<Rightarrow> at (groups pd) index"
  assume a: "applyDataToFormPrefill b gs1 p doc = Done d1 \<and>
    processGroup b g (case p of None \<Rightarrow> None | Some pd \<Rightarrow> at (groups pd) (length gs1)) d1 = Raised e d2"
  then obtain d0 where t: "applyTopLevel p doc = Done d0" and f: "forEachGroup b ?look 0 gs1 d0 = Done d1"
    by (cases "applyTopLevel p doc") (simp_all add: applyDataToFormPrefill_def)
  from a have "processGroup b g (?look (length gs1)) d1 = Raised e d2" by simp
  with f have "forEachGroup b ?look 0 (gs1 @ g # gs2) d0 = Raised e d2" by (rule forEachGroup_raises0)
  then show "applyDataToFormPrefill b (gs1 @ g # gs2) p doc = Raised e d2"
    by (simp add: applyDataToFormPrefill_def t)
next
  assume "firstControl doc fe = Some x \<and> isFileInput (fst (snd x)) \<and> v \<noteq> []"
  then show "applyGenericValue b fe v doc = Raised InvalidStateError doc"
    by (intro applyGenericValue_file [of doc fe x]) simp_all
next
  assume a: "list_all safeGroup gs \<and> safeDoc doc \<and>
    (case q of None \<Rightarrow> True | Some qs \<Rightarrow> list_all safeEntry qs)"
  have "\<And>i gd. (case q of None \<Rightarrow> None | Some qs \<Rightarrow> at qs i) = Some gd \<Longrightarrow> safeEntry gd"
    using a by (auto split: option.splits dest: at_safe)
  from forEachGroup_safe [of "\<lambda>index. case q of None \<Rightarrow> None | Some qs \<Rightarrow> at qs index", OF this] a
  show "isDone (applyDataToForm b gs q doc)" by (simp add: applyDataToForm_def)
next
  assume a: "list_all safeGroup gs \<and> safeDoc doc \<and>
    (case p of None \<Rightarrow> True | Some pd \<Rightarrow> list_all safeEntry (groups pd))"
  have se: "\<And>i gd. (case p of None \<Rightarrow> None | Some pd \<Rightarrow> at (groups pd) i) = Some gd \<Longrightarrow> safeEntry gd"
    using a by (auto split: option.splits dest: at_safe)
  from a applyTopLevel_safe [of doc p] obtain d0 where t: "applyTopLevel p doc = Done d0" "safeDoc d0"
    by blast
  from forEachGroup_safe
    [of "\<lambda>index. case p of None \<Rightarrow> None | Some pd \<Rightarrow> at (groups pd) index", OF se] a t(2)
  show "isDone (applyDataToFormPrefill b gs p doc)" by (simp add: applyDataToFormPrefill_def t(1))
qed

lemma firstGroup_raises:
  "processGroup quietBrowser firstGroup (Some seatEntry) twoDoc =
     Raised SyntaxError (removeNode 26 (removeNode 28 twoDoc))"
proof -
  let ?d = "removeNode 26 (removeNode 28 twoDoc)"
  have r: "reduceBranch firstGroup (Some seatEntry) twoDoc = Some ?d"
    by (simp add: firstGroup_def twoDoc_def reduceBranch_def mkField_def dom_defs)
  have "isDone (overrideHeader quietBrowser firstGroup seatEntry ?d)"
    by (intro overrideHeader_safe)
      (simp add: safeGroup_def firstGroup_def mkField_def ascii_def isAsciiLetter_def isAsciiDigit_def isNameChar_def)
  moreover have "finalDoc (overrideHeader quietBrowser firstGroup seatEntry ?d) = ?d"
    by (intro overrideHeader_empty) (simp add: seatEntry_def)
  ultimately have h: "overrideHeader quietBrowser firstGroup seatEntry ?d = Done ?d"
    by (cases "overrideHeader quietBrowser firstGroup seatEntry ?d") simp_all
  have t: "findTargetField firstGroup (ascii ''Seat'') = Some (mkField ''id_13'' ''control_radio'' (Some (ascii ''Seat'')) 3)"
    by (simp add: findTargetField_def firstGroup_def mkField_def stripSpace_def isJsSpace_def
        ascii_def requestContent_def)
  have e: "getElementById ?d (ascii ''id_13'') = Some 30"
    by (simp add: twoDoc_def dom_defs)
  have i: "selectFirst ?d (Some 30)
      [Compound [Type ''input''], Compound [Type ''select''], Compound [Type ''textarea'']] =
      Some ([mkElem 30 ''li'' [(''id'', ''id_13''), (''data-type'', ''control_radio'')],
             mkElem 1 ''ul'' [(''class'', ''form-section'')]],
            mkElem 32 ''input'' [(''type'', ''radio''), (''name'', ''q13''), (''value'', ''x'')], [])"
    by (simp add: twoDoc_def dom_defs)
  have q: "queryRadio quietBrowser [113, 49, 51] [97, 10, 98] ?d = Inl SyntaxError"
    by (simp add: queryRadio_def isPlainChar_def isNewline_def)
  have g: "applyGenericValue quietBrowser 30 [97, 10, 98] ?d = Raised SyntaxError ?d"
    by (simp add: applyGenericValue_def i Let_def)
      (simp add: mkElem_def isRadio_def nameOf_def getAttribute_def asciiLower_def ascii_def q)
  have p: "padTime (stripSpace (ascii ''Seat'')) [97, 10, 98] = [97, 10, 98]"
    by (simp add: padTime_def)
  have m: "id_f (mkField ''id_13'' ''control_radio'' (Some (ascii ''Seat'')) 3) = Some (ascii ''id_13'')"
    "type_f (mkField ''id_13'' ''control_radio'' (Some (ascii ''Seat'')) 3) \<noteq> Some (ascii ''control_datetime'')"
    "ascii ''id_13'' \<noteq> []" "ascii ''Seat'' \<noteq> requestContent"
    by (simp_all add: mkField_def ascii_def requestContent_def)
  have f: "applyField quietBrowser firstGroup (ascii ''Seat'') [97, 10, 98] ?d = Raised SyntaxError ?d"
    by (simp add: applyField_def Let_def t p m e g)
  show ?thesis
    by (simp add: processGroup_def r h) (simp add: seatEntry_def f)
qed

lemma twoDoc_second:
  "choiceItems (removeNode 26 (removeNode 28 twoDoc)) (ascii ''id_21'') = [52, 54, 56, 58]"
  by (simp add: twoDoc_def choiceItems_def choiceEntries_def dom_defs)

theorem C1_counterexample:
  "applyDataToForm quietBrowser [firstGroup, secondGroup] (Some [seatEntry, emptyEntry]) twoDoc =
     Raised SyntaxError (removeNode 26 (removeNode 28 twoDoc)) \<and>
   requestFieldId secondGroup = Some (ascii ''id_21'') \<and>
   choiceItems (removeNode 26 (removeNode 28 twoDoc)) (ascii ''id_21'') = [52, 54, 56, 58]"
proof -
  have "requestFieldId secondGroup = Some (ascii ''id_21'')"
    by (simp add: secondGroup_def requestFieldId_def mkField_def ascii_def requestContent_def)
  then show ?thesis
    by (simp add: applyDataToForm_def at_def firstGroup_raises twoDoc_second)
qed

lemma formGroup_safe: "safeGroup formGroup"
  by (simp add: safeGroup_def formGroup_def mkField_def ascii_def isAsciiLetter_def isAsciiDigit_def isNameChar_def)

lemma formDoc_safe: "safeDoc formDoc"
  by (simp add: safeDoc_def safeElem_def isFileInput_def asciiLower_def formDoc_def nameOf_def
      isPlainChar_def isNewline_def dom_defs)

lemma changedEntry_safe: "safeEntry changedEntry"
  by (simp add: safeEntry_def changedEntry_def ascii_def isPlainChar_def isNewline_def)

lemma uploadDoc_control:
  "firstControl uploadDoc 30 =
     Some ([mkElem 30 ''li'' [(''id'', ''id_15''), (''data-type'', ''control_fileupload'')],
            mkElem 1 ''ul'' [(''class'', ''form-section'')]],
           mkElem 32 ''input'' [(''type'', ''file''), (''name'', ''q15_upload[]'')], [])"
  by (simp add: firstControl_def uploadDoc_def dom_defs)

lemma uploadDoc_file: "isFileInput (mkElem 32 ''input'' [(''type'', ''file''), (''name'', ''q15_upload[]'')])"
  by (simp add: isFileInput_def mkElem_def getAttribute_def asciiLower_def ascii_def)

theorem C1_exceptions_propagate_witness:
  "applyDataToForm quietBrowser [] (Some [seatEntry, emptyEntry]) twoDoc = Done twoDoc \<and>
   processGroup quietBrowser firstGroup (Some seatEntry) twoDoc =
     Raised SyntaxError (removeNode 26 (removeNode 28 twoDoc)) \<and>
   applyDataToForm quietBrowser ([] @ firstGroup # [secondGroup]) (Some [seatEntry, emptyEntry]) twoDoc =
     Raised SyntaxError (removeNode 26 (removeNode 28 twoDoc)) \<and>
   applyDataToFormPrefill quietBrowser ([] @ firstGroup # [secondGroup])
     (Some \<lparr>topLevel = None, groups = [seatEntry, emptyEntry]\<rparr>) twoDoc =
     Raised SyntaxError (removeNode 26 (removeNode 28 twoDoc)) \<and>
   applyGenericValue quietBrowser 30 (ascii ''x'') uploadDoc = Raised InvalidStateError uploadDoc \<and>
   list_all safeGroup [formGroup] \<and> safeDoc formDoc \<and> list_all safeEntry [changedEntry] \<and>
   isDone (applyDataToForm quietBrowser [formGroup] (Some [changedEntry]) formDoc) \<and>
   isDone (applyDataToFormPrefill quietBrowser [formGroup]
     (Some \<lparr>topLevel = None, groups = [changedEntry]\<rparr>) formDoc)"
proof -
  have a0: "applyDataToForm quietBrowser [] (Some [seatEntry, emptyEntry]) twoDoc = Done twoDoc"
    by (simp add: applyDataToForm_def)
  have p0: "applyDataToFormPrefill quietBrowser []
      (Some \<lparr>topLevel = None, groups = [seatEntry, emptyEntry]\<rparr>) twoDoc = Done twoDoc"
    by (simp add: applyDataToFormPrefill_def applyTopLevel_def)
  note T1 = C1_exceptions_propagate [where b = quietBrowser and ?gs1.0 = "[]"
      and q = "Some [seatEntry, emptyEntry]" and doc = twoDoc and ?d1.0 = twoDoc and g = firstGroup
      and e = SyntaxError and ?d2.0 = "removeNode 26 (removeNode 28 twoDoc)" and ?gs2.0 = "[secondGroup]"
      and p = "Some \<lparr>topLevel = None, groups = [seatEntry, emptyEntry]\<rparr>"]
  have r1: "applyDataToForm quietBrowser ([] @ firstGroup # [secondGroup]) (Some [seatEntry, emptyEntry]) twoDoc =
      Raised SyntaxError (removeNode 26 (removeNode 28 twoDoc))"
    using T1 a0 firstGroup_raises by (simp add: at_def)
  have r2: "applyDataToFormPrefill quietBrowser ([] @ firstGroup # [secondGroup])
      (Some \<lparr>topLevel = None, groups = [seatEntry, emptyEntry]\<rparr>) twoDoc =
      Raised SyntaxError (removeNode 26 (removeNode 28 twoDoc))"
    using T1 p0 firstGroup_raises by (simp add: at_def)
  note T2 = C1_exceptions_propagate [where b = quietBrowser and q = "Some [changedEntry]" and doc = formDoc
      and p = "Some \<lparr>topLevel = None, groups = [changedEntry]\<rparr>" and gs = "[formGroup]"]
  have s: "list_all safeGroup [formGroup]" "safeDoc formDoc" "list_all safeEntry [changedEntry]"
    by (simp_all add: formGroup_safe formDoc_safe changedEntry_safe)
  have d1: "isDone (applyDataToForm quietBrowser [formGroup] (Some [changedEntry]) formDoc)"
    using T2 s by simp
  have d2: "isDone (applyDataToFormPrefill quietBrowser [formGroup]
      (Some \<lparr>topLevel = None, groups = [changedEntry]\<rparr>) formDoc)"
    using T2 s by simp
  note T3 = C1_exceptions_propagate [where b = quietBrowser and doc = uploadDoc and fe = 30
      and x = "([mkElem 30 ''li'' [(''id'', ''id_15''), (''data-type'', ''control_fileupload'')],
            mkElem 1 ''ul'' [(''class'', ''form-section'')]],
           mkElem 32 ''input'' [(''type'', ''file''), (''name'', ''q15_upload[]'')], [])"
      and v = "ascii ''x''"]
  have nv: "ascii ''x'' \<noteq> []" by (simp add: ascii_def)
  have u: "applyGenericValue quietBrowser 30 (ascii ''x'') uploadDoc = Raised InvalidStateError uploadDoc"
    using T3 uploadDoc_control uploadDoc_file nv by simp
  show ?thesis by (intro conjI a0 firstGroup_raises r1 r2 u s d1 d2)
qed

text \<open>
  A section with a file upload field, and the payload entry \<open>{"Upload": "x"}\<close>: the
  call ends with the \<open>InvalidStateError\<close> of the write, after the branch reduction.
\<close>

lemma upload_raises:
  "applyDataToForm quietBrowser [uploadGroup] (Some [uploadEntry]) uploadDoc =
     Raised InvalidStateError (removeNode 26 (removeNode 28 uploadDoc))"
proof -
  let ?d = "removeNode 26 (removeNode 28 uploadDoc)"
  have r: "reduceBranch uploadGroup (Some uploadEntry) uploadDoc = Some ?d"
    by (simp add: uploadGroup_def uploadDoc_def reduceBranch_def mkField_def dom_defs)
  have "finalDoc (overrideHeader quietBrowser uploadGroup uploadEntry ?d) = ?d"
    by (intro overrideHeader_empty) (simp add: uploadEntry_def)
  moreover have "isDone (overrideHeader quietBrowser uploadGroup uploadEntry ?d)"
    by (intro overrideHeader_safe)
      (simp add: safeGroup_def uploadGroup_def mkField_def ascii_def isAsciiLetter_def isAsciiDigit_def isNameChar_def)
  ultimately have h: "overrideHeader quietBrowser uploadGroup uploadEntry ?d = Done ?d"
    by (cases "overrideHeader quietBrowser uploadGroup uploadEntry ?d") simp_all
  have t: "findTargetField uploadGroup (ascii ''Upload'') =
      Some (mkField ''id_15'' ''control_fileupload'' (Some (ascii ''Upload'')) 3)"
    by (simp add: findTargetField_def uploadGroup_def mkField_def stripSpace_def isJsSpace_def
        ascii_def requestContent_def)
  have e: "getElementById ?d (ascii ''id_15'') = Some 30"
    by (simp add: uploadDoc_def dom_defs)
  have c: "firstControl ?d 30 =
     Some ([mkElem 30 ''li'' [(''id'', ''id_15''), (''data-type'', ''control_fileupload'')],
            mkElem 1 ''ul'' [(''class'', ''form-section'')]],
           mkElem 32 ''input'' [(''type'', ''file''), (''name'', ''q15_upload[]'')], [])"
    by (simp add: firstControl_def uploadDoc_def dom_defs)
  have nv: "ascii ''x'' \<noteq> []" by (simp add: ascii_def)
  have g: "applyGenericValue quietBrowser 30 (ascii ''x'') ?d = Raised InvalidStateError ?d"
    by (rule applyGenericValue_file [OF c]) (simp_all add: uploadDoc_file nv)
  have p: "padTime (stripSpace (ascii ''Upload'')) (ascii ''x'') = ascii ''x''"
    by (simp add: padTime_def stripSpace_def isJsSpace_def ascii_def hourKey_def minuteKey_def)
  have m: "id_f (mkField ''id_15'' ''control_fileupload'' (Some (ascii ''Upload'')) 3) = Some (ascii ''id_15'')"
    "type_f (mkField ''id_15'' ''control_fileupload'' (Some (ascii ''Upload'')) 3) \<noteq> Some (ascii ''control_datetime'')"
    "ascii ''id_15'' \<noteq> []" "ascii ''Upload'' \<noteq> requestContent"
    by (simp_all add: mkField_def ascii_def requestContent_def)
  have f: "applyField quietBrowser uploadGroup (ascii ''Upload'') (ascii ''x'') ?d = Raised InvalidStateError ?d"
    by (simp add: applyField_def Let_def t p m e g)
  have "processGroup quietBrowser uploadGroup (Some uploadEntry) uploadDoc = Raised InvalidStateError ?d"
    by (simp add: processGroup_def r h) (simp add: uploadEntry_def f)
  then show ?thesis by (simp add: applyDataToForm_def at_def)
qed

lemma valueOf_updated:
  "valueOf (setValue k v doc) j =
     map_option (\<lambda>x. if entryKey x = k then v else value_p (fst (snd x)))
       (find (\<lambda>x. entryKey x = j) (walkDoc doc))"
proof -
  let ?f = "\<lambda>e. e\<lparr>value_p := v\<rparr>"
  have fp: "frameProp ?f" by simp
  have "valueOf (setValue k v doc) j =
      map_option (\<lambda>x. value_p (fst (snd (updEntry k ?f x)))) (find (\<lambda>x. entryKey x = j) (walkDoc doc))"
    using fp by (simp add: valueOf_def setValue_def walkDoc_setProp find_map_entry option.map_comp comp_def)
  moreover have "\<And>x. value_p (fst (snd (updEntry k ?f x))) = (if entryKey x = k then v else value_p (fst (snd x)))"
    by (simp add: updEntry_def upd_def entryKey_def)
  ultimately show ?thesis by simp
qed

lemma valueOf_setValue_same: "valueOf (setValue k v doc) k = map_option (\<lambda>_. v) (valueOf doc k)"
proof (cases "find (\<lambda>x. entryKey x = k) (walkDoc doc)")
  case None
  then show ?thesis by (simp add: valueOf_updated) (simp add: valueOf_def)
next
  case (Some x)
  then have "entryKey x = k" by (auto dest: find_Some_set)
  then show ?thesis using Some by (simp add: valueOf_updated) (simp add: valueOf_def)
qed






lemma find_key_present: "x \<in> set xs \<Longrightarrow> find (\<lambda>y. entryKey y = entryKey x) xs \<noteq> None"
  by (induction xs) auto























lemma requestContent_stripped: "stripSpace requestContent = requestContent"
  by (simp add: stripSpace_def requestContent_def isJsSpace_def)

lemma not_timeOption: "stripSpace k = requestContent \<Longrightarrow> k \<noteq> ascii ''timeOption''"
  by (auto simp: stripSpace_def requestContent_def isJsSpace_def ascii_def)

lemma padTime_request: "padTime requestContent v = v"
  by (simp add: padTime_def requestContent_def hourKey_def minuteKey_def)

lemma findTarget_spaced:
  "stripSpace k = requestContent \<Longrightarrow>
   findTargetField tg k = find (\<lambda>f. map_option stripSpace (text_f f) = Some requestContent) (childFields tg)"
  using not_timeOption [of k] by (simp add: findTargetField_def)

lemma find_first: 
  "\<not> list_ex P pre \<Longrightarrow> P x \<Longrightarrow> find P (pre @ x # post) = Some x"
  by (induction pre) simp_all

lemma find_exists: "x \<in> set xs \<Longrightarrow> P x \<Longrightarrow> find P xs \<noteq> None"
  by (auto simp: find_None_iff)

lemma checkedOf_updated:
  "checkedOf (setChecked k doc) j =
     map_option (\<lambda>x. if entryKey x = k then True else checked_p (fst (snd x)))
       (find (\<lambda>x. entryKey x = j) (walkDoc doc))"
proof -
  let ?f = "\<lambda>e. e\<lparr>checked_p := True\<rparr>"
  have fp: "frameProp ?f" by simp
  have "checkedOf (setChecked k doc) j =
      map_option (\<lambda>x. checked_p (fst (snd (updEntry k ?f x)))) (find (\<lambda>x. entryKey x = j) (walkDoc doc))"
    using fp by (simp add: checkedOf_def setChecked_def walkDoc_setProp find_map_entry option.map_comp comp_def)
  moreover have "\<And>x. checked_p (fst (snd (updEntry k ?f x))) = (if entryKey x = k then True else checked_p (fst (snd x)))"
    by (simp add: updEntry_def upd_def entryKey_def)
  ultimately show ?thesis by simp
qed

lemma checkedOf_setChecked_same: "checkedOf doc k \<noteq> None \<Longrightarrow> checkedOf (setChecked k doc) k = Some True"
proof -
  assume "checkedOf doc k \<noteq> None"
  then obtain x where x: "find (\<lambda>x. entryKey x = k) (walkDoc doc) = Some x"
    by (auto simp: checkedOf_def)
  then have "entryKey x = k" by (auto dest: find_Some_set)
  with x show ?thesis by (simp add: checkedOf_updated)
qed

lemma valueOf_setChecked: "valueOf (setChecked k doc) j = valueOf doc j"
proof -
  let ?f = "\<lambda>e. e\<lparr>checked_p := True\<rparr>"
  have fp: "frameProp ?f" by simp
  have "valueOf (setChecked k doc) j =
      map_option (\<lambda>x. value_p (fst (snd (updEntry k ?f x)))) (find (\<lambda>x. entryKey x = j) (walkDoc doc))"
    using fp by (simp add: valueOf_def setChecked_def walkDoc_setProp find_map_entry option.map_comp comp_def)
  moreover have "\<And>x. value_p (fst (snd (updEntry k ?f x))) = value_p (fst (snd x))"
    by (simp add: updEntry_def upd_def)
  ultimately show ?thesis by (simp add: valueOf_def)
qed

lemma checkedOf_setValue: "checkedOf (setValue k v doc) j = checkedOf doc j"
proof -
  let ?f = "\<lambda>e. e\<lparr>value_p := v\<rparr>"
  have fp: "frameProp ?f" by simp
  have "checkedOf (setValue k v doc) j =
      map_option (\<lambda>x. checked_p (fst (snd (updEntry k ?f x)))) (find (\<lambda>x. entryKey x = j) (walkDoc doc))"
    using fp by (simp add: checkedOf_def setValue_def walkDoc_setProp find_map_entry option.map_comp comp_def)
  moreover have "\<And>x. checked_p (fst (snd (updEntry k ?f x))) = checked_p (fst (snd x))"
    by (simp add: updEntry_def upd_def)
  ultimately show ?thesis by (simp add: checkedOf_def)
qed

lemma inputsWith_present: "r \<in> set (inputsWith doc nm v) \<Longrightarrow> checkedOf doc r \<noteq> None"
proof -
  assume "r \<in> set (inputsWith doc nm v)"
  then obtain x where "x \<in> set (walkDoc doc)" "entryKey x = r"
    by (auto simp: inputsWith_def querySelectorAll_def selectAll_def)
  then show ?thesis using find_key_present [of x "walkDoc doc"] by (simp add: checkedOf_def)
qed

lemma queryRadio_valid:
  "list_all isPlainChar (nm @ v) \<Longrightarrow> queryRadio b nm v doc = Inr (inputsWith doc nm v)"
proof -
  assume "list_all isPlainChar (nm @ v)"
  then have "find (\<lambda>c. \<not> isPlainChar c) (nm @ v) = None"
    by (auto simp: find_None_iff list_all_iff)
  then show ?thesis by (simp add: queryRadio_def inputsWith_def)
qed

lemma applyGenericValue_none: "firstControl doc fe = None \<Longrightarrow> applyGenericValue b fe v doc = Done doc"
  by (simp add: applyGenericValue_def firstControl_def)

lemma applyGenericValue_radio:
  assumes c: "firstControl doc fe = Some x" and i: "localName (fst (snd x)) = ascii ''input''"
    and r: "isRadio (fst (snd x))" and pl: "list_all isPlainChar (nameOf (fst (snd x)) @ v)"
  shows "applyGenericValue b fe v doc =
     (case inputsWith doc (nameOf (fst (snd x))) v of [] \<Rightarrow> Done doc | r # _ \<Rightarrow> Done (setChecked r doc))"
proof -
  have ne: "ascii ''input'' \<noteq> ascii ''select''" by (simp add: ascii_def)
  from c have s: "selectFirst doc (Some fe)
      [Compound [Type ''input''], Compound [Type ''select''], Compound [Type ''textarea'']] = Some x"
    by (simp add: firstControl_def)
  show ?thesis
    by (simp add: applyGenericValue_def s Let_def i ne r queryRadio_valid [OF pl])
qed

lemma applyGenericValue_value:
  assumes c: "firstControl doc fe = Some x"
    and n: "\<not> (localName (fst (snd x)) = ascii ''input'' \<and>
               (isRadio (fst (snd x)) \<or> isFileInput (fst (snd x)) \<and> v \<noteq> []))"
  shows "applyGenericValue b fe v doc = Done (setValue (key (fst (snd x))) v doc) \<and>
         valueOf (setValue (key (fst (snd x))) v doc) (key (fst (snd x))) = Some v"
proof -
  from c have s: "selectFirst doc (Some fe)
      [Compound [Type ''input''], Compound [Type ''select''], Compound [Type ''textarea'']] = Some x"
    by (simp add: firstControl_def)
  have a: "applyGenericValue b fe v doc = Done (setValue (key (fst (snd x))) v doc)"
    using n by (auto simp: applyGenericValue_def s Let_def)
  from s have "x \<in> set (walkDoc doc)" by (rule selectFirst_in)
  then have "valueOf doc (entryKey x) \<noteq> None"
    using find_key_present [of x "walkDoc doc"] by (simp add: valueOf_def)
  then have "valueOf (setValue (entryKey x) v doc) (entryKey x) = Some v"
    by (auto simp: valueOf_setValue_same)
  with a show ?thesis by (simp add: entryKey_def)
qed

text \<open>
  C10 as amended. The key of the request-content field is skipped by the field loop
  only when it is the literal itself. A key that is not the literal but is the literal
  once its whitespace is removed goes through the generic matching, like any other key:
  its target is the first member whose label without whitespace is the literal. The
  request-content field has such a label, so a target exists; it is the
  request-content field itself only when no member before it has such a label. When the
  target has an id whose element is in the document and is not a date/time field, the
  generic branch is applied to that element with the payload value as it is: with no
  input, select or textarea inside, nothing changes; when the first of them is a radio
  input (and the selector built from its name and the value is valid), the first input
  of the document with this \<open>name\<close> attribute and with the payload value as its
  \<open>value\<close> attribute becomes checked, no value and no text changes, and if there is
  none nothing changes; when it is any other control but a file input given a non-empty
  value, its value becomes the payload value.
\<close>

theorem C10_reserved_key:
  assumes ne: "k \<noteq> requestContent" and ws: "stripSpace k = requestContent"
  shows "applyField b tg requestContent v doc = Done doc \<and>
     findTargetField tg k =
       find (\<lambda>f. map_option stripSpace (text_f f) = Some requestContent) (childFields tg) \<and>
     (\<forall>rf. find (\<lambda>f. text_f f = Some requestContent) (childFields tg) = Some rf \<longrightarrow>
        map_option stripSpace (text_f rf) = Some (stripSpace k) \<and> findTargetField tg k \<noteq> None) \<and>
     (\<forall>pre rf post. childFields tg = pre @ rf # post \<and> text_f rf = Some requestContent \<and>
        \<not> list_ex (\<lambda>g. map_option stripSpace (text_f g) = Some requestContent) pre \<longrightarrow>
        findTargetField tg k = Some rf) \<and>
     (\<forall>rf i fe. findTargetField tg k = Some rf \<and> id_f rf = Some i \<and> i \<noteq> [] \<and>
        getElementById doc i = Some fe \<and> type_f rf \<noteq> Some (ascii ''control_datetime'') \<longrightarrow>
        applyField b tg k v doc = applyGenericValue b fe v doc \<and>
        (firstControl doc fe = None \<longrightarrow> applyField b tg k v doc = Done doc) \<and>
        (\<forall>x. firstControl doc fe = Some x \<and> localName (fst (snd x)) = ascii ''input'' \<and>
           isRadio (fst (snd x)) \<and> list_all isPlainChar (nameOf (fst (snd x)) @ v) \<longrightarrow>
           (inputsWith doc (nameOf (fst (snd x))) v = [] \<longrightarrow> applyField b tg k v doc = Done doc) \<and>
           (\<forall>r rs. inputsWith doc (nameOf (fst (snd x))) v = r # rs \<longrightarrow>
              applyField b tg k v doc = Done (setChecked r doc) \<and>
              checkedOf (setChecked r doc) r = Some True \<and>
              (\<forall>j. valueOf (setChecked r doc) j = valueOf doc j) \<and>
              textsOf (setChecked r doc) = textsOf doc)) \<and>
        (\<forall>x. firstControl doc fe = Some x \<and>
           \<not> (localName (fst (snd x)) = ascii ''input'' \<and>
              (isRadio (fst (snd x)) \<or> isFileInput (fst (snd x)) \<and> v \<noteq> [])) \<longrightarrow>
           applyField b tg k v doc = Done (setValue (key (fst (snd x))) v doc) \<and>
           valueOf (setValue (key (fst (snd x))) v doc) (key (fst (snd x))) = Some v))"
proof (intro conjI allI impI)
  show "applyField b tg requestContent v doc = Done doc" by (simp add: applyField_def)
next
  show "findTargetField tg k =
      find (\<lambda>f. map_option stripSpace (text_f f) = Some requestContent) (childFields tg)"
    using ws by (rule findTarget_spaced)
next
  fix rf assume f: "find (\<lambda>f. text_f f = Some requestContent) (childFields tg) = Some rf"
  then have rf: "rf \<in> set (childFields tg)" "text_f rf = Some requestContent"
    by (auto dest: find_Some_set)
  then show "map_option stripSpace (text_f rf) = Some (stripSpace k)"
    using ws by (simp add: requestContent_stripped)
  have "map_option stripSpace (text_f rf) = Some requestContent"
    using rf by (simp add: requestContent_stripped)
  then show "findTargetField tg k \<noteq> None"
    using find_exists [OF rf(1), of "\<lambda>f. map_option stripSpace (text_f f) = Some requestContent"]
    by (simp add: findTarget_spaced [OF ws])
next
  fix pre rf post
  assume a: "childFields tg = pre @ rf # post \<and> text_f rf = Some requestContent \<and>
      \<not> list_ex (\<lambda>g. map_option stripSpace (text_f g) = Some requestContent) pre"
  then have "map_option stripSpace (text_f rf) = Some requestContent"
    by (simp add: requestContent_stripped)
  with a show "findTargetField tg k = Some rf"
    by (simp add: findTarget_spaced [OF ws] find_first)
next
  fix rf i fe
  assume t: "findTargetField tg k = Some rf \<and> id_f rf = Some i \<and> i \<noteq> [] \<and>
      getElementById doc i = Some fe \<and> type_f rf \<noteq> Some (ascii ''control_datetime'')"
  then show g: "applyField b tg k v doc = applyGenericValue b fe v doc"
    using ne ws by (simp add: applyField_def Let_def padTime_request)
  {
    assume "firstControl doc fe = None"
    then show "applyField b tg k v doc = Done doc" using g by (simp add: applyGenericValue_none)
  }
  {
    fix x
    assume c: "firstControl doc fe = Some x \<and> localName (fst (snd x)) = ascii ''input'' \<and>
        isRadio (fst (snd x)) \<and> list_all isPlainChar (nameOf (fst (snd x)) @ v)"
    then have r: "applyField b tg k v doc =
        (case inputsWith doc (nameOf (fst (snd x))) v of [] \<Rightarrow> Done doc | r # _ \<Rightarrow> Done (setChecked r doc))"
      using g applyGenericValue_radio [of doc fe x v b] by simp
    {
      assume "inputsWith doc (nameOf (fst (snd x))) v = []"
      then show "applyField b tg k v doc = Done doc" using r by simp
    }
    {
      fix r' rs assume rw: "inputsWith doc (nameOf (fst (snd x))) v = r' # rs"
      then show "applyField b tg k v doc = Done (setChecked r' doc)" using r by simp
      from rw have "r' \<in> set (inputsWith doc (nameOf (fst (snd x))) v)" by simp
      then have "checkedOf doc r' \<noteq> None" by (rule inputsWith_present)
      then show "checkedOf (setChecked r' doc) r' = Some True" by (rule checkedOf_setChecked_same)
      show "textsOf (setChecked r' doc) = textsOf doc" by simp
      {
        fix j show "valueOf (setChecked r' doc) j = valueOf doc j" by (rule valueOf_setChecked)
      }
    }
  }
  {
    fix x
    assume c: "firstControl doc fe = Some x \<and>
        \<not> (localName (fst (snd x)) = ascii ''input'' \<and>
           (isRadio (fst (snd x)) \<or> isFileInput (fst (snd x)) \<and> v \<noteq> []))"
    then have "applyGenericValue b fe v doc = Done (setValue (key (fst (snd x))) v doc) \<and>
        valueOf (setValue (key (fst (snd x))) v doc) (key (fst (snd x))) = Some v"
      by (intro applyGenericValue_value) simp_all
    then show "applyField b tg k v doc = Done (setValue (key (fst (snd x))) v doc)"
      "valueOf (setValue (key (fst (snd x))) v doc) (key (fst (snd x))) = Some v"
      using g by simp_all
  }
qed

lemma formDoc_request_element: "getElementById formDoc (ascii ''id_11'') = Some 20"
  by (simp add: formDoc_def dom_defs)

lemma formDoc_control:
  "firstControl formDoc 20 =
      Some ([mkElem 22 ''span'' [(''class'', ''form-radio-item'')],
             mkElem 20 ''li'' [(''id'', ''id_11''), (''data-type'', ''control_radio'')],
             mkElem 1 ''ul'' [(''class'', ''form-section'')]],
            mkElem 23 ''input'' [(''type'', ''radio''), (''name'', ''q11_request''), (''value'', ''a'')], [])"
  by (simp add: firstControl_def formDoc_def dom_defs)

lemma formDoc_radio:
  "isRadio (mkElem 23 ''input'' [(''type'', ''radio''), (''name'', ''q11_request''), (''value'', ''a'')])"
  "nameOf (mkElem 23 ''input'' [(''type'', ''radio''), (''name'', ''q11_request''), (''value'', ''a'')]) =
     ascii ''q11_request''"
  "localName (mkElem 23 ''input'' [(''type'', ''radio''), (''name'', ''q11_request''), (''value'', ''a'')]) =
     ascii ''input''"
  by (simp_all add: mkElem_def isRadio_def nameOf_def getAttribute_def asciiLower_def ascii_def)

lemma formDoc_radios:
  "inputsWith formDoc (ascii ''q11_request'') (ascii ''b'') = [25]"
  "inputsWith formDoc (ascii ''q11_request'') (ascii ''z'') = []"
  by (simp_all add: inputsWith_def formDoc_def dom_defs)

lemma request_plain:
  "list_all isPlainChar (ascii ''q11_request'')" "list_all isPlainChar (ascii ''b'')"
  "list_all isPlainChar (ascii ''z'')"
  by (simp_all add: ascii_def isPlainChar_def isNewline_def)

lemma formDoc_unchecked: "checkedOf formDoc 25 = Some False"
  by (simp add: checkedOf_def formDoc_def dom_defs)

lemma spacedKey_facts: "spacedKey \<noteq> requestContent" "stripSpace spacedKey = requestContent"
  using requestContent_stripped by (simp_all add: spacedKey_def stripSpace_def isJsSpace_def)

lemma shadowDoc_target:
  "findTargetField shadowGroup spacedKey = Some (mkField ''id_14'' ''control_textbox'' (Some spacedLabel) 2)"
  by (simp add: findTarget_spaced [OF spacedKey_facts(2)] shadowGroup_def mkField_def spacedLabel_def
      stripSpace_def isJsSpace_def requestContent_def)

lemma shadowDoc_element: "getElementById shadowDoc (ascii ''id_14'') = Some 40"
  by (simp add: shadowDoc_def dom_defs)

lemma shadowDoc_control:
  "firstControl shadowDoc 40 =
      Some ([mkElem 40 ''li'' [(''id'', ''id_14''), (''data-type'', ''control_textbox'')],
             mkElem 1 ''ul'' [(''class'', ''form-section'')]],
            mkElem 42 ''input'' [(''type'', ''text''), (''name'', ''q14_note'')], [])"
  by (simp add: firstControl_def shadowDoc_def dom_defs)

lemma shadowDoc_text:
  "\<not> isRadio (mkElem 42 ''input'' [(''type'', ''text''), (''name'', ''q14_note'')])"
  "\<not> isFileInput (mkElem 42 ''input'' [(''type'', ''text''), (''name'', ''q14_note'')])"
  "key (mkElem 42 ''input'' [(''type'', ''text''), (''name'', ''q14_note'')]) = 42"
  by (simp_all add: mkElem_def isRadio_def isFileInput_def getAttribute_def asciiLower_def ascii_def)

lemma shadow_field:
  "id_f (mkField ''id_14'' ''control_textbox'' (Some spacedLabel) 2) = Some (ascii ''id_14'')"
  "ascii ''id_14'' \<noteq> []"
  "type_f (mkField ''id_14'' ''control_textbox'' (Some spacedLabel) 2) \<noteq> Some (ascii ''control_datetime'')"
  by (simp_all add: mkField_def ascii_def)

theorem C10_reserved_key_witness:
  "spacedKey \<noteq> requestContent \<and> stripSpace spacedKey = requestContent \<and>
   applyField quietBrowser formGroup requestContent (ascii ''b'') formDoc = Done formDoc \<and>
   findTargetField formGroup spacedKey = Some (mkField ''id_11'' ''control_radio'' (Some requestContent) 2) \<and>
   checkedOf formDoc 25 = Some False \<and>
   applyField quietBrowser formGroup spacedKey (ascii ''b'') formDoc = Done (setChecked 25 formDoc) \<and>
   checkedOf (setChecked 25 formDoc) 25 = Some True \<and>
   applyField quietBrowser formGroup spacedKey (ascii ''z'') formDoc = Done formDoc \<and>
   applyField quietBrowser shadowGroup spacedKey (ascii ''b'') shadowDoc =
     Done (setValue 42 (ascii ''b'') shadowDoc) \<and>
   valueOf (setValue 42 (ascii ''b'') shadowDoc) 42 = Some (ascii ''b'')"
proof -
  note ne = spacedKey_facts(1) and ws = spacedKey_facts(2)
  note T = C10_reserved_key [OF ne ws, of quietBrowser formGroup "ascii ''b''" formDoc]
  note Tz = C10_reserved_key [OF ne ws, of quietBrowser formGroup "ascii ''z''" formDoc]
  note Ts = C10_reserved_key [OF ne ws, of quietBrowser shadowGroup "ascii ''b''" shadowDoc]
  let ?rf = "mkField ''id_11'' ''control_radio'' (Some requestContent) 2"
  let ?x = "([mkElem 22 ''span'' [(''class'', ''form-radio-item'')],
             mkElem 20 ''li'' [(''id'', ''id_11''), (''data-type'', ''control_radio'')],
             mkElem 1 ''ul'' [(''class'', ''form-section'')]],
            mkElem 23 ''input'' [(''type'', ''radio''), (''name'', ''q11_request''), (''value'', ''a'')], [])"
  let ?sf = "mkField ''id_14'' ''control_textbox'' (Some spacedLabel) 2"
  let ?y = "([mkElem 40 ''li'' [(''id'', ''id_14''), (''data-type'', ''control_textbox'')],
             mkElem 1 ''ul'' [(''class'', ''form-section'')]],
            mkElem 42 ''input'' [(''type'', ''text''), (''name'', ''q14_note'')], [])"
  from T have r: "applyField quietBrowser formGroup requestContent (ascii ''b'') formDoc = Done formDoc"
    by (rule conjunct1)
  have c: "childFields formGroup = [] @ ?rf # [mkField ''id_12'' ''control_datetime'' (Some (ascii ''Date'')) 3] \<and>
      text_f ?rf = Some requestContent \<and>
      \<not> list_ex (\<lambda>g. map_option stripSpace (text_f g) = Some requestContent) []"
    by (simp add: formGroup_def mkField_def)
  note T4 = T [THEN conjunct2, THEN conjunct2, THEN conjunct2, THEN conjunct1, rule_format]
  from c have t: "findTargetField formGroup spacedKey = Some ?rf" by (rule T4)
  have m: "id_f ?rf = Some (ascii ''id_11'')" "ascii ''id_11'' \<noteq> []"
    "type_f ?rf \<noteq> Some (ascii ''control_datetime'')"
    by (simp_all add: mkField_def ascii_def)
  have A: "findTargetField formGroup spacedKey = Some ?rf \<and> id_f ?rf = Some (ascii ''id_11'') \<and>
      ascii ''id_11'' \<noteq> [] \<and> getElementById formDoc (ascii ''id_11'') = Some 20 \<and>
      type_f ?rf \<noteq> Some (ascii ''control_datetime'')"
    by (intro conjI t m formDoc_request_element)
  have B: "firstControl formDoc 20 = Some ?x \<and> localName (fst (snd ?x)) = ascii ''input'' \<and>
      isRadio (fst (snd ?x)) \<and> list_all isPlainChar (nameOf (fst (snd ?x)) @ ascii ''b'')"
    "firstControl formDoc 20 = Some ?x \<and> localName (fst (snd ?x)) = ascii ''input'' \<and>
      isRadio (fst (snd ?x)) \<and> list_all isPlainChar (nameOf (fst (snd ?x)) @ ascii ''z'')"
    by (simp_all add: formDoc_control formDoc_radio request_plain)
  have C: "inputsWith formDoc (nameOf (fst (snd ?x))) (ascii ''b'') = 25 # []"
    "inputsWith formDoc (nameOf (fst (snd ?x))) (ascii ''z'') = []"
    by (simp_all add: formDoc_radio formDoc_radios)
  note T5 = T [THEN conjunct2, THEN conjunct2, THEN conjunct2, THEN conjunct2, rule_format, OF A]
  note T5r = T5 [THEN conjunct2, THEN conjunct2, THEN conjunct1, rule_format, OF B(1)]
  note T5c = T5r [THEN conjunct2, rule_format, OF C(1)]
  from T5c have b: "applyField quietBrowser formGroup spacedKey (ascii ''b'') formDoc = Done (setChecked 25 formDoc)"
    "checkedOf (setChecked 25 formDoc) 25 = Some True"
    by blast+
  note Tz5 = Tz [THEN conjunct2, THEN conjunct2, THEN conjunct2, THEN conjunct2, rule_format, OF A]
  note Tz5r = Tz5 [THEN conjunct2, THEN conjunct2, THEN conjunct1, rule_format, OF B(2)]
  from C(2) have z: "applyField quietBrowser formGroup spacedKey (ascii ''z'') formDoc = Done formDoc"
    by (rule Tz5r [THEN conjunct1, rule_format])
  have As: "findTargetField shadowGroup spacedKey = Some ?sf \<and> id_f ?sf = Some (ascii ''id_14'') \<and>
      ascii ''id_14'' \<noteq> [] \<and> getElementById shadowDoc (ascii ''id_14'') = Some 40 \<and>
      type_f ?sf \<noteq> Some (ascii ''control_datetime'')"
    by (intro conjI shadowDoc_target shadow_field shadowDoc_element)
  have Bs: "firstControl shadowDoc 40 = Some ?y \<and>
      \<not> (localName (fst (snd ?y)) = ascii ''input'' \<and>
        (isRadio (fst (snd ?y)) \<or> isFileInput (fst (snd ?y)) \<and> ascii ''b'' \<noteq> []))"
    by (simp add: shadowDoc_control shadowDoc_text)
  note Ts5 = Ts [THEN conjunct2, THEN conjunct2, THEN conjunct2, THEN conjunct2, rule_format, OF As]
  note Ts5v = Ts5 [THEN conjunct2, THEN conjunct2, THEN conjunct2, rule_format, OF Bs]
  have k: "key (fst (snd ?y)) = 42" by (simp add: shadowDoc_text)
  from Ts5v have s: "applyField quietBrowser shadowGroup spacedKey (ascii ''b'') shadowDoc =
      Done (setValue 42 (ascii ''b'') shadowDoc)"
    "valueOf (setValue 42 (ascii ''b'') shadowDoc) 42 = Some (ascii ''b'')"
    by (simp_all only: k)
  show ?thesis by (intro conjI ne ws r t formDoc_unchecked b z s)
qed

lemma shadowGroup_request: "requestFieldId shadowGroup = Some (ascii ''id_11'')"
  by (simp add: requestFieldId_def shadowGroup_def mkField_def spacedLabel_def requestContent_def ascii_def)

lemma shadow_applied:
  "applyField quietBrowser shadowGroup spacedKey (ascii ''b'') shadowDoc =
     Done (setValue 42 (ascii ''b'') shadowDoc)"
proof -
  have p: "padTime (stripSpace spacedKey) (ascii ''b'') = ascii ''b''"
    by (simp add: spacedKey_facts(2) padTime_request)
  have "applyGenericValue quietBrowser 40 (ascii ''b'') shadowDoc =
      Done (setValue 42 (ascii ''b'') shadowDoc)"
    using applyGenericValue_value [OF shadowDoc_control, of "ascii ''b''" quietBrowser]
    by (simp add: shadowDoc_text)
  then show ?thesis
    by (simp add: applyField_def Let_def spacedKey_facts(1) p shadowDoc_target shadow_field shadowDoc_element)
qed

lemma shadow_values:
  "valueOf (setValue 42 (ascii ''b'') shadowDoc) 42 = Some (ascii ''b'')"
  "inputsWith shadowDoc (ascii ''q11_request'') (ascii ''b'') = [25]"
  "checkedOf (setValue 42 (ascii ''b'') shadowDoc) 25 = Some False"
proof -
  have "valueOf shadowDoc 42 = Some []" by (simp add: valueOf_def shadowDoc_def dom_defs)
  then show "valueOf (setValue 42 (ascii ''b'') shadowDoc) 42 = Some (ascii ''b'')"
    by (simp add: valueOf_setValue_same)
  show "inputsWith shadowDoc (ascii ''q11_request'') (ascii ''b'') = [25]"
    by (simp add: inputsWith_def shadowDoc_def dom_defs)
  have "checkedOf shadowDoc 25 = Some False" by (simp add: checkedOf_def shadowDoc_def dom_defs)
  then show "checkedOf (setValue 42 (ascii ''b'') shadowDoc) 25 = Some False"
    by (simp add: checkedOf_setValue)
qed

theorem C10_counterexample:
  "spacedKey \<noteq> requestContent \<and> stripSpace spacedKey = requestContent \<and>
   requestFieldId shadowGroup = Some (ascii ''id_11'') \<and>
   findTargetField shadowGroup spacedKey = Some (mkField ''id_14'' ''control_textbox'' (Some spacedLabel) 2) \<and>
   applyField quietBrowser shadowGroup spacedKey (ascii ''b'') shadowDoc =
     Done (setValue 42 (ascii ''b'') shadowDoc) \<and>
   valueOf (setValue 42 (ascii ''b'') shadowDoc) 42 = Some (ascii ''b'') \<and>
   inputsWith shadowDoc (ascii ''q11_request'') (ascii ''b'') = [25] \<and>
   checkedOf (setValue 42 (ascii ''b'') shadowDoc) 25 = Some False"
  by (intro conjI spacedKey_facts shadowGroup_request shadowDoc_target shadow_applied shadow_values)

lemma restorePlus_idem: "restorePlus (restorePlus s) = restorePlus s"
  by (simp add: restorePlus_def)

lemma restorePlus_empty: "restorePlus s = [] \<longleftrightarrow> s = []"
  by (simp add: restorePlus_def)

lemma parse_restored: "parseQueryParameters (Some (restorePlus s)) = parseQueryParameters (Some s)"
  by (simp add: parseQueryParameters_def decodePayload_def restorePlus_idem restorePlus_empty)

lemma parse_returns: "\<exists>v. parseQueryParameters d = Inr v"
  by (simp add: parseQueryParameters_def split: option.splits sum.splits)

lemma in_stripPadding: "x \<in> set s \<Longrightarrow> x \<noteq> 61 \<Longrightarrow> x \<in> set (stripPadding s)"
proof -
  assume x: "x \<in> set s" "x \<noteq> 61"
  have b: "\<And>t. x \<in> set t \<Longrightarrow> t \<noteq> [] \<Longrightarrow> last t = 61 \<Longrightarrow> x \<in> set (butlast t)"
  proof -
    fix t :: jstring assume t: "x \<in> set t" "t \<noteq> []" "last t = 61"
    from t(2) have "t = butlast t @ [last t]" by (rule append_butlast_last_id [symmetric])
    then have "set t = set (butlast t) \<union> {last t}" by (metis set_append list.set(1) list.set(2))
    then show "x \<in> set (butlast t)" using x(2) t(1) t(3) by blast
  qed
  show ?thesis using x b [of s] b [of "butlast s"] by (auto simp: stripPadding_def)
qed

lemma atob_bad_char:
  assumes "list_ex (\<lambda>c. b64val c = None \<and> \<not> isAsciiSpace c \<and> c \<noteq> 61) s"
  shows "atob s = Inl InvalidCharacterError"
proof -
  from assms obtain c where c: "c \<in> set s" "b64val c = None" "\<not> isAsciiSpace c" "c \<noteq> 61"
    by (auto simp: list_ex_iff)
  then have "c \<in> set (filter (\<lambda>c. \<not> isAsciiSpace c) s)" by simp
  then have "c \<in> set (stripPadding (filter (\<lambda>c. \<not> isAsciiSpace c) s))"
    using c(4) by (rule in_stripPadding)
  then have "list_ex (\<lambda>c. b64val c = None) (stripPadding (filter (\<lambda>c. \<not> isAsciiSpace c) s))"
    using c(2) by (auto simp: list_ex_iff)
  then show ?thesis by (simp add: atob_def Let_def)
qed

text \<open>
  C6 as amended. \<open>parseQueryParameters\<close> never raises. It returns \<open>null\<close> when the
  parameter is absent or empty, when \<open>atob\<close> raises (the base64 is invalid: so for
  every text with a character that is neither of the alphabet nor whitespace nor
  \<open>=\<close>), and when \<open>JSON.parse\<close> raises on the decoded text; otherwise it returns what
  \<open>JSON.parse\<close> returns. Bytes that are not valid UTF-8 raise nothing: the decoder is
  not fatal, and they reach \<open>JSON.parse\<close> as U+FFFD. The spaces of the parameter are
  replaced by \<open>+\<close> before \<open>atob\<close>, so a text and the same text with its spaces
  restored give the same result.
\<close>

theorem C6_parse_never_raises:
  "(\<exists>v. parseQueryParameters d = Inr v) \<and>
   parseQueryParameters None = Inr JNull \<and>
   parseQueryParameters (Some []) = Inr JNull \<and>
   (atob (restorePlus s) = Inl e \<longrightarrow> parseQueryParameters (Some s) = Inr JNull) \<and>
   (list_ex (\<lambda>c. b64val c = None \<and> \<not> isAsciiSpace c \<and> c \<noteq> 61) (restorePlus s) \<longrightarrow>
      parseQueryParameters (Some s) = Inr JNull) \<and>
   (atob (restorePlus s) = Inr bin \<and> JSON_parse (textDecode (map ucast bin)) = Inl e \<longrightarrow>
      parseQueryParameters (Some s) = Inr JNull) \<and>
   (s \<noteq> [] \<and> atob (restorePlus s) = Inr bin \<and> JSON_parse (textDecode (map ucast bin)) = Inr v \<longrightarrow>
      parseQueryParameters (Some s) = Inr v) \<and>
   parseQueryParameters (Some (restorePlus s)) = parseQueryParameters (Some s)"
proof -
  have "list_ex (\<lambda>c. b64val c = None \<and> \<not> isAsciiSpace c \<and> c \<noteq> 61) (restorePlus s) \<longrightarrow>
      parseQueryParameters (Some s) = Inr JNull"
    using atob_bad_char [of "restorePlus s"]
    by (simp add: parseQueryParameters_def decodePayload_def)
  then show ?thesis
    using parse_returns [of d] parse_restored [of s]
    by (simp add: parseQueryParameters_def decodePayload_def Let_def)
qed

lemma broken_atob: "atob (restorePlus (ascii ''W3siaGVhZGVyVGV4dCI6Iv8iLCJmaWVsZHMiOnt9fV0='')) = Inr brokenBytes"
  by (simp add: brokenBytes_def ascii_def atob_def stripPadding_def restorePlus_def isAsciiSpace_def
      b64val_def Let_def)

lemma broken_invalid: "\<not> validUtf8 (map ucast brokenBytes)"
  by (simp add: validUtf8_def brokenBytes_def ascii_def utf8Decode_def)

lemma broken_json:
  "JSON_parse (textDecode (map ucast brokenBytes)) =
     Inr (JArray [JObject [(ascii ''headerText'', JString [0xFFFD]), (ascii ''fields'', JObject [])]])"
  by (simp add: brokenBytes_def ascii_def textDecode_def stripBOM_def utf8Decode_def
      JSON_parse_def skipSpace_def isJsonSpace_def scalar_def)

theorem C6_counterexample:
  "atob (restorePlus (ascii ''W3siaGVhZGVyVGV4dCI6Iv8iLCJmaWVsZHMiOnt9fV0='')) = Inr brokenBytes \<and>
   \<not> validUtf8 (map ucast brokenBytes) \<and>
   parseQueryParameters (Some (ascii ''W3siaGVhZGVyVGV4dCI6Iv8iLCJmaWVsZHMiOnt9fV0='')) =
     Inr (JArray [JObject [(ascii ''headerText'', JString [0xFFFD]), (ascii ''fields'', JObject [])]])"
proof -
  have "ascii ''W3siaGVhZGVyVGV4dCI6Iv8iLCJmaWVsZHMiOnt9fV0='' \<noteq> []" by (simp add: ascii_def)
  then show ?thesis
    by (simp add: parseQueryParameters_def decodePayload_def broken_atob broken_invalid broken_json)
qed

lemma plus_atob:
  "atob (restorePlus (ascii ''W3siaGVhZGVyVGV4dCI6IkE IiwiZmllbGRzIjp7ImsiOiJ2PyJ9fV0='')) =
     Inr (ascii ''[{\"headerText\":\"A>\",\"fields\":{\"k\":\"v?\"}}]'')"
  by (simp add: ascii_def atob_def stripPadding_def restorePlus_def isAsciiSpace_def b64val_def Let_def)

lemma plus_text:
  "textDecode (map ucast (ascii ''[{\"headerText\":\"A>\",\"fields\":{\"k\":\"v?\"}}]'')) =
     ascii ''[{\"headerText\":\"A>\",\"fields\":{\"k\":\"v?\"}}]''"
  by (simp add: ascii_def textDecode_def stripBOM_def utf8Decode_def)

lemma plus_json:
  "JSON_parse (ascii ''[{\"headerText\":\"A>\",\"fields\":{\"k\":\"v?\"}}]'') =
     Inr (JArray [JObject [(ascii ''headerText'', JString (ascii ''A>'')),
                           (ascii ''fields'', JObject [(ascii ''k'', JString (ascii ''v?''))])]])"
  by (simp add: ascii_def JSON_parse_def skipSpace_def isJsonSpace_def scalar_def)

lemma star_bad: "list_ex (\<lambda>c. b64val c = None \<and> \<not> isAsciiSpace c \<and> c \<noteq> 61) (restorePlus (ascii ''a*b''))"
  by (simp add: ascii_def restorePlus_def b64val_def isAsciiSpace_def)

lemma brace_atob: "atob (restorePlus (ascii ''ew=='')) = Inr (ascii ''{'')"
  by (simp add: ascii_def atob_def stripPadding_def restorePlus_def isAsciiSpace_def b64val_def Let_def)

lemma brace_json: "JSON_parse (textDecode (map ucast (ascii ''{''))) = Inl SyntaxError"
  by (simp add: ascii_def textDecode_def stripBOM_def utf8Decode_def JSON_parse_def skipSpace_def isJsonSpace_def)

theorem C6_parse_never_raises_witness:
  "parseQueryParameters None = Inr JNull \<and>
   parseQueryParameters (Some (ascii ''a*b'')) = Inr JNull \<and>
   parseQueryParameters (Some (ascii ''ew=='')) = Inr JNull \<and>
   parseQueryParameters (Some (ascii ''W3siaGVhZGVyVGV4dCI6IkE IiwiZmllbGRzIjp7ImsiOiJ2PyJ9fV0='')) =
     Inr (JArray [JObject [(ascii ''headerText'', JString (ascii ''A>'')),
                           (ascii ''fields'', JObject [(ascii ''k'', JString (ascii ''v?''))])]])"
proof -
  have n: "parseQueryParameters None = Inr JNull"
    using C6_parse_never_raises [of None "[]" InvalidCharacterError "[]" JNull] by simp
  have a: "parseQueryParameters (Some (ascii ''a*b'')) = Inr JNull"
    using C6_parse_never_raises [of None "ascii ''a*b''" InvalidCharacterError "[]" JNull] star_bad by blast
  have b: "parseQueryParameters (Some (ascii ''ew=='')) = Inr JNull"
    using C6_parse_never_raises [of None "ascii ''ew==''" SyntaxError "ascii ''{''" JNull] brace_atob brace_json
    by blast
  have ne: "ascii ''W3siaGVhZGVyVGV4dCI6IkE IiwiZmllbGRzIjp7ImsiOiJ2PyJ9fV0='' \<noteq> []" by (simp add: ascii_def)
  have c: "parseQueryParameters (Some (ascii ''W3siaGVhZGVyVGV4dCI6IkE IiwiZmllbGRzIjp7ImsiOiJ2PyJ9fV0='')) =
      Inr (JArray [JObject [(ascii ''headerText'', JString (ascii ''A>'')),
                           (ascii ''fields'', JObject [(ascii ''k'', JString (ascii ''v?''))])]])"
    using C6_parse_never_raises [of None "ascii ''W3siaGVhZGVyVGV4dCI6IkE IiwiZmllbGRzIjp7ImsiOiJ2PyJ9fV0=''"
        SyntaxError "ascii ''[{\"headerText\":\"A>\",\"fields\":{\"k\":\"v?\"}}]''"
        "JArray [JObject [(ascii ''headerText'', JString (ascii ''A>'')),
                           (ascii ''fields'', JObject [(ascii ''k'', JString (ascii ''v?''))])]]"]
      ne plus_atob plus_json
    by (simp only: plus_text) blast
  from n a b c show ?thesis by blast
qed

section \<open>The order of the extracted fields\<close>

lemma order_switchType: "order_f (switchType doc el field) = order_f field"
  by (simp add: switchType_def dropdownField_def radioField_def fullnameField_def emailField_def
      buttonField_def Let_def split: option.splits)

lemma order_qidFallback: "order_f (qidFallback el field) = order_f field"
  by (simp add: qidFallback_def split: option.splits)

lemma order_extractField: "order_f (extractField doc n x) = n"
  by (simp add: extractField_def order_qidFallback order_switchType baseField_def Let_def)

lemma orders_mapFields: "map order_f (mapFields doc n xs) = [n ..< n + length xs]"
proof (induction xs arbitrary: n)
  case Nil
  show ?case by simp
next
  case (Cons x xs)
  have "map order_f (mapFields doc n (x # xs)) = n # [Suc n ..< Suc n + length xs]"
    by (simp add: order_extractField Cons.IH)
  also have "\<dots> = [n ..< n + length (x # xs)]"
    using upt_conv_Cons [of n "n + length (x # xs)"] by simp
  finally show ?case .
qed

lemma length_mapFields: "length (mapFields doc n xs) = length xs"
  by (induction xs arbitrary: n) simp_all

lemma length_allElements:
  "length (allElements doc) =
     length (fieldElements doc) +
     (case buttonElement doc of None \<Rightarrow> 0
      | Some b \<Rightarrow> if includesElem (fieldElements doc) b then 0 else 1)"
  by (simp add: allElements_def split: option.splits)

text \<open>
  C4. For every document, the \<open>order\<close> values of the list that \<open>extractFieldsFromDOM\<close>
  returns are 1, 2, ..., n in this order, where n is the number of candidate elements:
  the list items of the sections, and one more for the submit element \<open>#id_2\<close> when it
  exists and is not one of them. So the values are strictly increasing and distinct.
\<close>

theorem C4_order_run:
  "map order_f (extractFieldsFromDOM doc) = [1 ..< Suc (length (allElements doc))] \<and>
   length (extractFieldsFromDOM doc) = length (allElements doc) \<and>
   length (allElements doc) =
     length (fieldElements doc) +
     (case buttonElement doc of None \<Rightarrow> 0
      | Some b \<Rightarrow> if includesElem (fieldElements doc) b then 0 else 1) \<and>
   sorted_wrt (<) (map order_f (extractFieldsFromDOM doc)) \<and>
   distinct (map order_f (extractFieldsFromDOM doc))"
proof -
  have run: "map order_f (extractFieldsFromDOM doc) = [1 ..< Suc (length (allElements doc))]"
    by (simp add: extractFieldsFromDOM_def orders_mapFields)
  have "sorted_wrt (<) [1 ..< Suc (length (allElements doc))]" by (rule sorted_wrt_upt)
  moreover have "distinct [1 ..< Suc (length (allElements doc))]" by (rule distinct_upt)
  ultimately show ?thesis
    using run length_allElements [of doc]
    by (simp add: extractFieldsFromDOM_def length_mapFields)
qed

lemma submitDoc_fields: "map entryKey (fieldElements submitDoc) = [10, 20, 30]"
  by (simp add: fieldElements_def selectAll_def selects_def inScope_def submitDoc_def formDoc_def
      walkDoc_def mkElem_def radioItem_def matchCompound_def classList_def getAttribute_def
      isAsciiSpace_def ascii_def entryKey_def)

lemma submitDoc_button: "map_option entryKey (buttonElement submitDoc) = Some 40"
  by (simp add: buttonElement_def selectFirst_def selects_def inScope_def submitDoc_def formDoc_def
      walkDoc_def mkElem_def radioItem_def matchCompound_def classList_def getAttribute_def
      isAsciiSpace_def ascii_def entryKey_def)

theorem C4_order_run_witness:
  "map entryKey (fieldElements submitDoc) = [10, 20, 30] \<and>
   map_option entryKey (buttonElement submitDoc) = Some 40 \<and>
   map order_f (extractFieldsFromDOM submitDoc) = [1, 2, 3, 4]"
proof -
  note T = C4_order_run [of submitDoc]
  obtain b where b: "buttonElement submitDoc = Some b" "entryKey b = 40"
    using submitDoc_button by auto
  have n: "\<not> includesElem (fieldElements submitDoc) b"
    by (simp add: includesElem_def submitDoc_fields b(2))
  have "length (fieldElements submitDoc) = length (map entryKey (fieldElements submitDoc))" by simp
  then have l: "length (fieldElements submitDoc) = 3" by (simp only: submitDoc_fields) simp
  from T have "length (allElements submitDoc) = 4" by (simp add: b(1) n l)
  with T have "map order_f (extractFieldsFromDOM submitDoc) = [1 ..< Suc 4]" by simp
  also have "\<dots> = [1, 2, 3, 4]" by (simp add: upt_rec)
  finally show ?thesis using submitDoc_fields submitDoc_button by simp
qed

end
